theory Spec2Isabelle
  imports Main "HOL-Library.AList"
begin

section \<open>Characters and the character classes of the patterns\<close>

text \<open>
  A line of the document is a Python string (a \<open>str\<close> of Python 3, a \<open>unicode\<close> of
  Python 2, as Markdown hands them to a preprocessor), modelled as a \<^typ>\<open>string\<close>: each
  \<^typ>\<open>char\<close> stands for the code point of the same number, so that the model covers
  the strings of code points 0 to 255. In the regular expressions \<open>\<backslash>s\<close> matches the
  characters for which \<open>isspace()\<close> holds, and \<open>split()\<close> without argument splits at
  the same characters. Below 256 these are the code points 9 to 13, 28 to 32, 133 and
  160. \<open>\<backslash>d\<close> matches the decimal digits, below 256 the code points 48 to 57.
\<close>

definition is_space :: "char \<Rightarrow> bool" where
  "is_space c = (let n = (of_char c :: nat) in
     (9 \<le> n \<and> n \<le> 13) \<or> (28 \<le> n \<and> n \<le> 32) \<or> n = 133 \<or> n = 160)"

definition is_digit :: "char \<Rightarrow> bool" where
  "is_digit c = (let n = (of_char c :: nat) in 48 \<le> n \<and> n \<le> 57)"

definition newline :: char where
  "newline = CHR 0x0A"

text \<open>
  \<open>re.IGNORECASE\<close>: a literal letter of a pattern matches a character whose lower case
  it is. Below 256 the only characters whose case mapping reaches the letters and ranges
  used by the patterns are the letters \<open>A\<close> to \<open>Z\<close>.
\<close>

definition to_lower :: "char \<Rightarrow> char" where
  "to_lower c = (let n = (of_char c :: nat) in
     if 65 \<le> n \<and> n \<le> 90 then char_of (n + 32) else c)"

text \<open>
  The set \<open>[a-z\<backslash>d,-_\<backslash>:\<backslash>s]\<close> of \<open>Patterns.row_open\<close>. Its third item \<open>,-_\<close> is a range,
  from the comma (44) to the underscore (95); under \<open>re.IGNORECASE\<close> a character is in
  the set when it or its lower case is.
\<close>

definition in_row_args_set :: "char \<Rightarrow> bool" where
  "in_row_args_set c = (let n = (of_char c :: nat) in
     (97 \<le> n \<and> n \<le> 122) \<or> is_digit c \<or> (44 \<le> n \<and> n \<le> 95) \<or> c = CHR '':'' \<or> is_space c)"

definition row_args_char :: "char \<Rightarrow> bool" where
  "row_args_char c = (in_row_args_set c \<or> in_row_args_set (to_lower c))"

section \<open>Regular expressions as backtracking matchers\<close>

text \<open>
  Each item of a regular expression is a function that takes the matcher of the rest of
  the expression (its continuation) and the rest of the subject string. A matcher
  returns \<open>None\<close> when there is no match, so that the item before it backtracks, as
  Python's \<open>re\<close> does: a greedy repetition first takes one more character, and gives
  it back only when the rest of the expression has failed.
\<close>

fun re_lit :: "string \<Rightarrow> (string \<Rightarrow> 'a option) \<Rightarrow> string \<Rightarrow> 'a option" where
  "re_lit [] k s = k s"
| "re_lit (x # xs) k [] = None"
| "re_lit (x # xs) k (c # cs) = (if c = x then re_lit xs k cs else None)"

fun re_lit_ci :: "string \<Rightarrow> (string \<Rightarrow> 'a option) \<Rightarrow> string \<Rightarrow> 'a option" where
  "re_lit_ci [] k s = k s"
| "re_lit_ci (x # xs) k [] = None"
| "re_lit_ci (x # xs) k (c # cs) = (if to_lower c = x then re_lit_ci xs k cs else None)"

text \<open>\<open>p*\<close> for a set of characters \<open>p\<close>, greedy.\<close>

fun re_star :: "(char \<Rightarrow> bool) \<Rightarrow> (string \<Rightarrow> 'a option) \<Rightarrow> string \<Rightarrow> 'a option" where
  "re_star p k [] = k []"
| "re_star p k (c # cs) =
     (if p c then (case re_star p k cs of Some r \<Rightarrow> Some r | None \<Rightarrow> k (c # cs))
      else k (c # cs))"

text \<open>
  \<open>(p*)\<close> and \<open>(p+)\<close>, capturing groups: the continuation also receives the text the
  group has matched, collected in \<open>acc\<close>.
\<close>

fun re_group_star ::
  "(char \<Rightarrow> bool) \<Rightarrow> string \<Rightarrow> (string \<Rightarrow> string \<Rightarrow> 'a option) \<Rightarrow> string \<Rightarrow> 'a option" where
  "re_group_star p acc k [] = k acc []"
| "re_group_star p acc k (c # cs) =
     (if p c
      then (case re_group_star p (acc @ [c]) k cs of Some r \<Rightarrow> Some r | None \<Rightarrow> k acc (c # cs))
      else k acc (c # cs))"

fun re_group_plus ::
  "(char \<Rightarrow> bool) \<Rightarrow> (string \<Rightarrow> string \<Rightarrow> 'a option) \<Rightarrow> string \<Rightarrow> 'a option" where
  "re_group_plus p k [] = None"
| "re_group_plus p k (c # cs) = (if p c then re_group_star p [c] k cs else None)"

text \<open>\<open>X?\<close> followed by \<open>K\<close> is the ordered choice between \<open>XK\<close> and \<open>K\<close>.\<close>

definition re_alt :: "(string \<Rightarrow> 'a option) \<Rightarrow> (string \<Rightarrow> 'a option) \<Rightarrow> string \<Rightarrow> 'a option" where
  "re_alt a b s = (case a s of Some r \<Rightarrow> Some r | None \<Rightarrow> b s)"

text \<open>
  \<open>$\<close> under \<open>re.MULTILINE\<close> matches at the end of the string and before every newline;
  without that flag it matches at the end of the string and before a newline that is
  the last character.
\<close>

definition re_eol :: "(string \<Rightarrow> 'a option) \<Rightarrow> string \<Rightarrow> 'a option" where
  "re_eol k s = (case s of [] \<Rightarrow> k s | c # cs \<Rightarrow> if c = newline then k s else None)"

definition re_eos :: "(string \<Rightarrow> 'a option) \<Rightarrow> string \<Rightarrow> 'a option" where
  "re_eos k s = (if s = [] \<or> s = [newline] then k s else None)"

section \<open>class Patterns\<close>

text \<open>
  The patterns are used through \<open>match\<close> (and \<open>re_spnoff\<close> through \<open>sub\<close>), which
  tries them at position 0 of the string, where the leading \<open>^\<close> holds. A matcher
  returns the groups and the rest of the string behind the match.

  \<^verbatim>\<open>row_open = ^\s*--\s*row\s*([a-z\d,-_\:\s]*)\s*--\s*$\<close>, result: group 1 and the rest.
\<close>

definition row_open :: "string \<Rightarrow> (string \<times> string) option" where
  "row_open =
     re_star is_space (re_lit ''--'' (re_star is_space (re_lit_ci ''row'' (re_star is_space
       (re_group_star row_args_char [] (\<lambda>g.
          re_star is_space (re_lit ''--'' (re_star is_space (re_eol (\<lambda>r. Some (g, r)))))))))))"

text \<open>\<^verbatim>\<open>row_close = ^\s*--\s*end\s*--\s*$\<close>\<close>

definition row_close :: "string \<Rightarrow> string option" where
  "row_close =
     re_star is_space (re_lit ''--'' (re_star is_space (re_lit_ci ''end'' (re_star is_space
       (re_lit ''--'' (re_star is_space (re_eol Some)))))))"

text \<open>\<^verbatim>\<open>col_sep = ^\s*--\s*$\<close>\<close>

definition col_sep :: "string \<Rightarrow> string option" where
  "col_sep = re_star is_space (re_lit ''--'' (re_star is_space (re_eol Some)))"

text \<open>
  \<^verbatim>\<open>re_spnoff = ^\s*(\d+)(\s*\:\s*(\d+))?\s*$\<close>, compiled without flags. Result:
  group 1, group 3 (\<open>None\<close> when the optional group 2 took no part) and the rest.
\<close>

definition re_spnoff :: "string \<Rightarrow> (string \<times> string option \<times> string) option" where
  "re_spnoff =
     re_star is_space (re_group_plus is_digit (\<lambda>g1.
       re_alt
         (re_star is_space (re_lit '':'' (re_star is_space (re_group_plus is_digit (\<lambda>g3.
            re_star is_space (re_eos (\<lambda>r. Some (g1, Some g3, r))))))))
         (re_star is_space (re_eos (\<lambda>r. Some (g1, None, r))))))"

text \<open>
  The classification of a line is the \<open>if\<close>/\<open>elif\<close> chain in the loop of
  \<open>parse_markers\<close>: \<open>row_open\<close> is tried first, then \<open>row_close\<close>, then \<open>col_sep\<close>.
\<close>

datatype marker = RowOpenMarker string | RowCloseMarker | ColSeparatorMarker | NotAMarker

definition classify :: "string \<Rightarrow> marker" where
  "classify line =
     (case row_open line of
        Some (args, r) \<Rightarrow> RowOpenMarker args
      | None \<Rightarrow>
          (case row_close line of
             Some r \<Rightarrow> RowCloseMarker
           | None \<Rightarrow> (case col_sep line of Some r \<Rightarrow> ColSeparatorMarker | None \<Rightarrow> NotAMarker)))"

section \<open>Python values and exceptions\<close>

text \<open>
  A profile name, a default column style and the \<open>style\<close> attribute of a command are
  \<open>None\<close> or a string. The exceptions are those the code can raise:
  \<open>AttributeError\<close> (an attribute that an object does not have), \<open>IndexError\<close>
  (\<open>pop\<close> and \<open>[-1]\<close> on an empty list, assignment behind the end of a list),
  \<open>KeyError\<close> (a key that a dictionary does not have) and the \<open>Exception\<close> of
  \<open>GridCmd.get_name\<close>.
\<close>

datatype pyval = PyNone | PyStr string

datatype error = AttributeError | IndexError | KeyError | UnknownTagType

section \<open>class GridCmd and class GridCmdInfo\<close>

definition ROW_OPEN :: int where "ROW_OPEN = 0"
definition ROW_CLOSE :: int where "ROW_CLOSE = 1"
definition COL_OPEN :: int where "COL_OPEN = 2"
definition COL_CLOSE :: int where "COL_CLOSE = 3"

definition get_name :: "int \<Rightarrow> error + string" where
  "get_name cmdtype =
     (if cmdtype = ROW_OPEN then Inr ''row''
      else if cmdtype = ROW_CLOSE then Inr ''endrow''
      else if cmdtype = COL_OPEN then Inr ''col''
      else if cmdtype = COL_CLOSE then Inr ''endcol''
      else Inl UnknownTagType)"

text \<open>
  A command object has the attribute \<open>cmdtype\<close> from its construction; the attribute
  \<open>style\<close> exists only once \<open>populate_cmd_params\<close> has assigned it (\<open>None\<close> here: no
  such attribute).
\<close>

record GridCmdInfo =
  cmdtype :: int
  style :: "pyval option"

definition GridCmdInfo_init :: "int \<Rightarrow> GridCmdInfo" where
  "GridCmdInfo_init t = \<lparr>cmdtype = t, style = None\<rparr>"

text \<open>\<open>"%s" % v\<close> for the values a style can have.\<close>

fun format_s :: "pyval \<Rightarrow> string" where
  "format_s PyNone = ''None''"
| "format_s (PyStr s) = s"

text \<open>\<open>GridCmdInfo.__str__\<close>; \<open>getattr(self, 'style', '')\<close> is the empty string when the
  attribute does not exist.\<close>

definition cmd_str :: "GridCmdInfo \<Rightarrow> error + string" where
  "cmd_str c =
     (let is_col = (cmdtype c = COL_OPEN);
          params = (if is_col
                    then ''('' @ format_s (case style c of None \<Rightarrow> PyStr [] | Some v \<Rightarrow> v) @ '')''
                    else [])
      in case get_name (cmdtype c) of Inl e \<Rightarrow> Inl e | Inr name \<Rightarrow> Inr (name @ params))"

section \<open>class GridConf\<close>

text \<open>
  The class body of \<open>GridConf\<close> binds \<open>DEFAULT_PROFILE\<close>, \<open>DESCRIPTIONS\<close>, \<open>PROFILES\<close> and
  \<open>get\<close>, and nothing binds \<open>BOOTSTRAP\<close> later. The expression
  \<open>GridConf.BOOTSTRAP['name'][0]\<close> of \<open>parse_row_args\<close> therefore raises
  \<open>AttributeError\<close> whenever it is evaluated.
\<close>

definition GridConf_BOOTSTRAP_name :: "error + pyval" where
  "GridConf_BOOTSTRAP_name = Inl AttributeError"

section \<open>class Parsers\<close>

definition DEFAULT_SEPARATOR :: char where
  "DEFAULT_SEPARATOR = CHR '',''"

text \<open>\<open>s.split(sep)\<close>: the pieces between the separators, empty pieces included.\<close>

fun split_on :: "char \<Rightarrow> string \<Rightarrow> string list" where
  "split_on sep [] = [[]]"
| "split_on sep (c # cs) =
     (if c = sep then [] # split_on sep cs
      else (case split_on sep cs of [] \<Rightarrow> [[c]] | x # xs \<Rightarrow> (c # x) # xs))"

text \<open>\<open>s.split()\<close>: the maximal runs of characters that are not whitespace; \<open>w\<close> is the
  run being read.\<close>

fun split_ws :: "string \<Rightarrow> string \<Rightarrow> string list" where
  "split_ws w [] = (if w = [] then [] else [w])"
| "split_ws w (c # cs) =
     (if is_space c then (if w = [] then split_ws [] cs else w # split_ws [] cs)
      else split_ws (w @ [c]) cs)"

text \<open>\<open>sep.join(xs)\<close>\<close>

fun join :: "string \<Rightarrow> string list \<Rightarrow> string" where
  "join sep [] = []"
| "join sep [x] = x"
| "join sep (x # y # ys) = x @ sep @ join sep (y # ys)"

text \<open>
  \<open>expand_shortcuts\<close>: \<open>Patterns.re_spnoff.sub(expand, arg)\<close> replaces the matches of
  \<open>re_spnoff\<close> in \<open>arg\<close>. The pattern starts with \<open>^\<close> and has no \<open>re.MULTILINE\<close>, so
  it can only match at position 0; what is behind the match is kept.
\<close>

definition expand :: "string \<Rightarrow> string option \<Rightarrow> string" where
  "expand s o3 =
     ''span'' @ s @ (case o3 of None \<Rightarrow> [] | Some ofs \<Rightarrow> if ofs \<noteq> [] then '' offset'' @ ofs else [])"

definition expand_shortcuts :: "string \<Rightarrow> bool \<Rightarrow> string" where
  "expand_shortcuts arg is_bs =
     (if is_bs
      then (case re_spnoff arg of None \<Rightarrow> arg | Some (s, o3, r) \<Rightarrow> expand s o3 @ r)
      else arg)"

text \<open>
  \<open>parse_row_args\<close>. The first argument of \<open>parse_row_args_with\<close> is the outcome of
  evaluating \<open>GridConf.BOOTSTRAP['name'][0]\<close>; \<open>parse_row_args\<close> is the function of the
  source, where this outcome is \<open>GridConf_BOOTSTRAP_name\<close>. The expression is evaluated
  after the arguments have been split and normalised, and before any shortcut is
  expanded. \<open>str(arguments)\<close> is the identity on a string.
\<close>

definition parse_row_args_with :: "error + pyval \<Rightarrow> string \<Rightarrow> pyval \<Rightarrow> error + string list" where
  "parse_row_args_with bs arguments profile =
     (let args = split_on DEFAULT_SEPARATOR arguments;
          args = map (\<lambda>arg. join '' '' (split_ws [] arg)) args;
          args = (if length args = 1 \<and> hd args = [] then [] else args)
      in case bs of
           Inl e \<Rightarrow> Inl e
         | Inr name \<Rightarrow>
             (let is_bs = (profile = name)
              in Inr (map (\<lambda>arg. expand_shortcuts arg is_bs) args)))"

definition parse_row_args :: "string \<Rightarrow> pyval \<Rightarrow> error + string list" where
  "parse_row_args = parse_row_args_with GridConf_BOOTSTRAP_name"

section \<open>GridPreprocessor.parse_markers\<close>

text \<open>
  The dictionaries \<open>rows\<close>, \<open>cmds\<close> and \<open>r2c\<close> are association lists in insertion order;
  \<open>d[k] = v\<close> is \<open>AList.update k v d\<close>, which replaces the value of a key that is there
  and appends a new key at the end. Their keys are line numbers, from
  \<open>range(len(lines))\<close>. \<open>row_stack\<close> is a Python list used as a stack: \<open>append\<close> adds
  at the end, \<open>[-1]\<close> is the last element and \<open>pop()\<close> removes it.
\<close>

type_synonym 'v linedict = "(nat \<times> 'v) list"

record parse_state =
  row_stack :: "nat list"
  p_rows :: "string list linedict"
  p_cmds :: "GridCmdInfo list linedict"
  p_r2c :: "nat list linedict"

definition init_state :: parse_state where
  "init_state = \<lparr>row_stack = [], p_rows = [], p_cmds = [], p_r2c = []\<rparr>"

text \<open>The body of the \<open>for\<close> loop, for the line \<open>line\<close> with number \<open>line_num\<close>.\<close>

definition parse_line_with ::
  "error + pyval \<Rightarrow> pyval \<Rightarrow> parse_state \<Rightarrow> nat \<Rightarrow> string \<Rightarrow> error + parse_state" where
  "parse_line_with bs profile st line_num line =
     (case row_open line of
        Some (args, r) \<Rightarrow>
          (let stack = row_stack st @ [line_num]
           in case parse_row_args_with bs args profile of
                Inl e \<Rightarrow> Inl e
              | Inr styles \<Rightarrow>
                  Inr (st\<lparr>row_stack := stack,
                          p_rows := AList.update line_num styles (p_rows st),
                          p_r2c := AList.update (last stack) [line_num] (p_r2c st),
                          p_cmds := AList.update line_num
                            [GridCmdInfo_init ROW_OPEN, GridCmdInfo_init COL_OPEN] (p_cmds st)\<rparr>))
      | None \<Rightarrow>
          (case row_close line of
             Some r \<Rightarrow>
               (let cmds = AList.update line_num
                      [GridCmdInfo_init COL_CLOSE, GridCmdInfo_init ROW_CLOSE] (p_cmds st)
                in if row_stack st = [] then Inl IndexError
                   else Inr (st\<lparr>p_cmds := cmds, row_stack := butlast (row_stack st)\<rparr>))
           | None \<Rightarrow>
               (case col_sep line of
                  Some r \<Rightarrow>
                    (if row_stack st = [] then Inl IndexError
                     else (case map_of (p_r2c st) (last (row_stack st)) of
                             None \<Rightarrow> Inl KeyError
                           | Some cols \<Rightarrow>
                               Inr (st\<lparr>p_r2c := AList.update (last (row_stack st))
                                         (cols @ [line_num]) (p_r2c st),
                                       p_cmds := AList.update line_num
                                         [GridCmdInfo_init COL_CLOSE, GridCmdInfo_init COL_OPEN]
                                         (p_cmds st)\<rparr>)))
                | None \<Rightarrow> Inr st)))"

text \<open>\<open>for line_num in range(len(lines))\<close>, from line number \<open>n\<close> on.\<close>

fun parse_loop ::
  "error + pyval \<Rightarrow> pyval \<Rightarrow> nat \<Rightarrow> string list \<Rightarrow> parse_state \<Rightarrow> error + parse_state" where
  "parse_loop bs profile n [] st = Inr st"
| "parse_loop bs profile n (line # ls) st =
     (case parse_line_with bs profile st n line of
        Inl e \<Rightarrow> Inl e
      | Inr st' \<Rightarrow> parse_loop bs profile (Suc n) ls st')"

text \<open>
  The \<open>while\<close> loop behind the scan. Its first statement subscripts \<open>cmds[-1]\<close>. The
  dictionary \<open>cmds\<close> is local to \<open>parse_markers\<close> and has received line numbers as keys
  only, which are not negative: the key \<open>-1\<close> is not there, and the first iteration
  raises \<open>KeyError\<close> before anything is appended or popped.
\<close>

fun close_open_rows :: "GridCmdInfo list linedict \<Rightarrow> nat list \<Rightarrow> error + GridCmdInfo list linedict" where
  "close_open_rows cmds [] = Inr cmds"
| "close_open_rows cmds (r # rs) = Inl KeyError"

definition parse_markers_with ::
  "error + pyval \<Rightarrow> string list \<Rightarrow> pyval \<Rightarrow>
     error + (string list linedict \<times> GridCmdInfo list linedict \<times> nat list linedict)" where
  "parse_markers_with bs lines profile =
     (case parse_loop bs profile 0 lines init_state of
        Inl e \<Rightarrow> Inl e
      | Inr st \<Rightarrow>
          (case close_open_rows (p_cmds st) (row_stack st) of
             Inl e \<Rightarrow> Inl e
           | Inr cmds \<Rightarrow> Inr (p_rows st, cmds, p_r2c st)))"

definition parse_markers ::
  "string list \<Rightarrow> pyval \<Rightarrow>
     error + (string list linedict \<times> GridCmdInfo list linedict \<times> nat list linedict)" where
  "parse_markers = parse_markers_with GridConf_BOOTSTRAP_name"

section \<open>GridPreprocessor.populate_cmd_params\<close>

text \<open>
  The innermost loop: the first command of type \<open>COL_OPEN\<close> in the list gets the style
  \<open>v\<close>, and the loop is left. \<open>None\<close>: the list has no such command, and nothing is
  assigned. The command objects of a document are distinct objects, so that assigning
  to one changes the list it is in and nothing else.
\<close>

fun set_col_style :: "pyval \<Rightarrow> GridCmdInfo list \<Rightarrow> GridCmdInfo list option" where
  "set_col_style v [] = None"
| "set_col_style v (c # cs) =
     (if cmdtype c = COL_OPEN then Some (c\<lparr>style := Some v\<rparr> # cs)
      else map_option ((#) c) (set_col_style v cs))"

text \<open>
  The loop over \<open>r2c[row_line_num]\<close>. \<open>styles\<close> is the reversed list of the row's styles:
  \<open>styles.pop()\<close> takes its last element, and is evaluated only when a \<open>COL_OPEN\<close>
  command has been found.
\<close>

fun populate_cols ::
  "pyval \<Rightarrow> string list \<Rightarrow> nat list \<Rightarrow> GridCmdInfo list linedict \<Rightarrow> error + GridCmdInfo list linedict" where
  "populate_cols d styles [] cmds = Inr cmds"
| "populate_cols d styles (col # cols) cmds =
     (case map_of cmds col of
        None \<Rightarrow> Inl KeyError
      | Some cs \<Rightarrow>
          (case set_col_style (if styles = [] then d else PyStr (last styles)) cs of
             None \<Rightarrow> populate_cols d styles cols cmds
           | Some cs' \<Rightarrow> populate_cols d (butlast styles) cols (AList.update col cs' cmds)))"

fun populate_rows ::
  "pyval \<Rightarrow> nat list \<Rightarrow> string list linedict \<Rightarrow> nat list linedict \<Rightarrow> GridCmdInfo list linedict
     \<Rightarrow> error + GridCmdInfo list linedict" where
  "populate_rows d [] rows r2c cmds = Inr cmds"
| "populate_rows d (row_line_num # ks) rows r2c cmds =
     (case map_of rows row_line_num of
        None \<Rightarrow> Inl KeyError
      | Some ss \<Rightarrow>
          (case map_of r2c row_line_num of
             None \<Rightarrow> Inl KeyError
           | Some cols \<Rightarrow>
               (case populate_cols d (rev ss) cols cmds of
                  Inl e \<Rightarrow> Inl e
                | Inr cmds' \<Rightarrow> populate_rows d ks rows r2c cmds')))"

definition populate_cmd_params ::
  "string list linedict \<Rightarrow> GridCmdInfo list linedict \<Rightarrow> nat list linedict \<Rightarrow> pyval
     \<Rightarrow> error + GridCmdInfo list linedict" where
  "populate_cmd_params rows cmds r2c def_col_style =
     populate_rows def_col_style (map fst rows) rows r2c cmds"

section \<open>GridPreprocessor.replace_markers\<close>

fun str_all :: "GridCmdInfo list \<Rightarrow> error + string list" where
  "str_all [] = Inr []"
| "str_all (c # cs) =
     (case cmd_str c of
        Inl e \<Rightarrow> Inl e
      | Inr s \<Rightarrow> (case str_all cs of Inl e \<Rightarrow> Inl e | Inr ss \<Rightarrow> Inr (s # ss)))"

definition grid_tag :: "string \<Rightarrow> string" where
  "grid_tag commands = [newline] @ ''<!--grid:'' @ commands @ ''-->''"

text \<open>
  \<open>for line_num in cmds\<close>, over the keys \<open>ks\<close> still to visit. The keys are line
  numbers, as \<open>parse_markers\<close> produces them. Assigning to \<open>lines[line_num]\<close> raises
  \<open>IndexError\<close> when the list has no such position.
\<close>

fun replace_loop ::
  "nat list \<Rightarrow> GridCmdInfo list linedict \<Rightarrow> string list \<Rightarrow> error + string list" where
  "replace_loop [] cmds lines = Inr lines"
| "replace_loop (line_num # ks) cmds lines =
     (case map_of cmds line_num of
        None \<Rightarrow> Inl KeyError
      | Some cs \<Rightarrow>
          (case str_all cs of
             Inl e \<Rightarrow> Inl e
           | Inr commands \<Rightarrow>
               (if line_num < length lines
                then replace_loop ks cmds (lines[line_num := grid_tag (join '';'' commands)])
                else Inl IndexError)))"

definition replace_markers :: "string list \<Rightarrow> GridCmdInfo list linedict \<Rightarrow> error + string list" where
  "replace_markers lines cmds = replace_loop (map fst cmds) cmds lines"

section \<open>GridPreprocessor.run\<close>

text \<open>
  \<open>self.config\<close> maps a parameter name to the list of its value and its description;
  \<open>get_conf\<close> returns the value, and \<open>None\<close> for a name that is not there.
\<close>

type_synonym config = "(string \<times> pyval \<times> string) list"

definition get_conf :: "config \<Rightarrow> string \<Rightarrow> pyval" where
  "get_conf config key = (case map_of config key of None \<Rightarrow> PyNone | Some (v, descr) \<Rightarrow> v)"

definition run_with :: "error + pyval \<Rightarrow> config \<Rightarrow> string list \<Rightarrow> error + string list" where
  "run_with bs config lines =
     (let profile = get_conf config ''name''
      in case parse_markers_with bs lines profile of
           Inl e \<Rightarrow> Inl e
         | Inr (rows, cmds, r2c) \<Rightarrow>
             (let style = get_conf config ''default_col_style''
              in case populate_cmd_params rows cmds r2c style of
                   Inl e \<Rightarrow> Inl e
                 | Inr cmds' \<Rightarrow> replace_markers lines cmds'))"

definition run :: "config \<Rightarrow> string list \<Rightarrow> error + string list" where
  "run = run_with GridConf_BOOTSTRAP_name"

section \<open>Notions used in the statements\<close>

text \<open>The number of commands of type \<open>t\<close> in all the command lists of \<open>cmds\<close>.\<close>

definition count_cmds :: "int \<Rightarrow> GridCmdInfo list linedict \<Rightarrow> nat" where
  "count_cmds t cmds = sum_list (map (\<lambda>e. length (filter (\<lambda>c. cmdtype c = t) (snd e))) cmds)"

text \<open>
  The invariant of the scan before line \<open>n\<close>: the keys of \<open>cmds\<close> are numbers of lines
  already visited, and every \<open>ROW_OPEN\<close> command is matched by a \<open>ROW_CLOSE\<close> command
  or by an entry of the stack.
\<close>

definition scan_inv :: "nat \<Rightarrow> parse_state \<Rightarrow> bool" where
  "scan_inv n st =
     (list_all (\<lambda>k. k < n) (map fst (p_cmds st)) \<and>
      count_cmds ROW_OPEN (p_cmds st) = count_cmds ROW_CLOSE (p_cmds st) + length (row_stack st))"

text \<open>
  The style that \<open>populate_cmd_params\<close> is to give to column \<open>i\<close> (counted from 0) of
  a row that declares the styles \<open>ss\<close>, with the default style \<open>d\<close>.
\<close>

definition style_for :: "string list \<Rightarrow> pyval \<Rightarrow> nat \<Rightarrow> pyval" where
  "style_for ss d i = (if i < length ss then PyStr (ss ! i) else d)"

definition has_col_open :: "GridCmdInfo list \<Rightarrow> bool" where
  "has_col_open cs = list_ex (\<lambda>c. cmdtype c = COL_OPEN) cs"

text \<open>The column lines of row \<open>r\<close>, and those of the rows \<open>ks\<close> one after the other.\<close>

definition cols_of :: "nat list linedict \<Rightarrow> nat \<Rightarrow> nat list" where
  "cols_of r2c r = (case map_of r2c r of None \<Rightarrow> [] | Some cols \<Rightarrow> cols)"

definition all_cols :: "nat list linedict \<Rightarrow> nat list \<Rightarrow> nat list" where
  "all_cols r2c ks = concat (map (cols_of r2c) ks)"

text \<open>
  The invariant of the tables before line \<open>n\<close>: \<open>rows\<close> and \<open>r2c\<close> have the same
  keys, each once, all of them lines already visited; no line is a column line twice,
  every column line has been visited and has a \<open>COL_OPEN\<close> command; and every row on
  the stack has its entry in \<open>r2c\<close>.
\<close>

definition tables_inv :: "nat \<Rightarrow> parse_state \<Rightarrow> bool" where
  "tables_inv n st =
     (map fst (p_rows st) = map fst (p_r2c st) \<and>
      distinct (map fst (p_r2c st)) \<and>
      list_all (\<lambda>k. k < n) (map fst (p_r2c st)) \<and>
      list_all (\<lambda>k. k < n) (map fst (p_cmds st)) \<and>
      distinct (concat (map snd (p_r2c st))) \<and>
      list_all (\<lambda>l. l < n \<and> (case map_of (p_cmds st) l of None \<Rightarrow> False | Some cs \<Rightarrow> has_col_open cs))
        (concat (map snd (p_r2c st))) \<and>
      list_all (\<lambda>r. map_of (p_r2c st) r \<noteq> None) (row_stack st))"

text \<open>The four command types of \<open>GridCmd\<close>.\<close>

definition known_cmdtype :: "int \<Rightarrow> bool" where
  "known_cmdtype t = (t = ROW_OPEN \<or> t = ROW_CLOSE \<or> t = COL_OPEN \<or> t = COL_CLOSE)"

text \<open>The text that \<open>replace_markers\<close> puts in the place of a line with the commands
  \<open>cs\<close>.\<close>

definition line_tag :: "GridCmdInfo list \<Rightarrow> error + string" where
  "line_tag cs =
     (case str_all cs of
        Inl e \<Rightarrow> Inl e
      | Inr commands \<Rightarrow> Inr (grid_tag (join '';'' commands)))"

text \<open>The command sequence that the scan is to store for a line, by its marker type.\<close>

definition prescribed :: "string \<Rightarrow> GridCmdInfo list option" where
  "prescribed line =
     (case classify line of
        RowOpenMarker args \<Rightarrow> Some [GridCmdInfo_init ROW_OPEN, GridCmdInfo_init COL_OPEN]
      | RowCloseMarker \<Rightarrow> Some [GridCmdInfo_init COL_CLOSE, GridCmdInfo_init ROW_CLOSE]
      | ColSeparatorMarker \<Rightarrow> Some [GridCmdInfo_init COL_CLOSE, GridCmdInfo_init COL_OPEN]
      | NotAMarker \<Rightarrow> None)"

text \<open>
  The two parts the marker patterns are made of: \<open>\<backslash>s*--\<backslash>s*\<close> followed by a keyword, and
  \<open>\<backslash>s*--\<backslash>s*$\<close>.
\<close>

definition marker_tail :: "(string \<Rightarrow> 'a option) \<Rightarrow> string \<Rightarrow> 'a option" where
  "marker_tail k = re_star is_space (re_lit ''--'' (re_star is_space (re_eol k)))"

definition marker_head :: "string \<Rightarrow> (string \<Rightarrow> 'a option) \<Rightarrow> string \<Rightarrow> 'a option" where
  "marker_head kw k = re_star is_space (re_lit ''--'' (re_star is_space (re_lit_ci kw k)))"

lemmas GridCmd_defs = ROW_OPEN_def ROW_CLOSE_def COL_OPEN_def COL_CLOSE_def

section \<open>The classification of a line\<close>

lemma classify_NotAMarker:
  "classify line = NotAMarker \<longleftrightarrow>
     row_open line = None \<and> row_close line = None \<and> col_sep line = None"
  by (auto simp: classify_def split: option.splits)

lemma classify_RowCloseMarker:
  "classify line = RowCloseMarker \<longleftrightarrow> row_open line = None \<and> row_close line \<noteq> None"
  by (auto simp: classify_def split: option.splits)

lemma classify_ColSeparatorMarker:
  "classify line = ColSeparatorMarker \<longleftrightarrow>
     row_open line = None \<and> row_close line = None \<and> col_sep line \<noteq> None"
  by (auto simp: classify_def split: option.splits)

lemma classify_RowOpenMarker:
  "classify line = RowOpenMarker args \<longleftrightarrow> (\<exists>r. row_open line = Some (args, r))"
  by (auto simp: classify_def split: option.splits)

subsection \<open>The matchers\<close>

lemma re_star_skip:
  "(\<And>c cs. p c \<Longrightarrow> k (c # cs) = None) \<Longrightarrow> re_star p k s = k (dropWhile p s)"
  by (induction s) (auto split: option.splits)

lemma re_star_greedy:
  "list_all p w \<Longrightarrow> s = [] \<or> \<not> p (hd s) \<Longrightarrow> k s = Some x \<Longrightarrow> re_star p k (w @ s) = Some x"
proof (induction w)
  case Nil
  then show ?case by (cases s) auto
next
  case (Cons c w)
  then show ?case by simp
qed

lemma re_star_success:
  "list_all p w \<Longrightarrow> k s \<noteq> None \<Longrightarrow> re_star p k (w @ s) \<noteq> None"
proof (induction w)
  case Nil
  then show ?case by (cases s) (auto split: option.splits)
next
  case (Cons c w)
  then show ?case by (auto split: option.splits)
qed

lemma re_star_decomp:
  "re_star p k s = Some x \<Longrightarrow> \<exists>w s'. s = w @ s' \<and> list_all p w \<and> k s' = Some x"
proof (induction s)
  case Nil
  then show ?case by simp
next
  case (Cons c cs)
  show ?case
  proof (cases "p c \<and> re_star p k cs = Some x")
    case True
    with Cons.IH obtain w s' where "cs = w @ s'" "list_all p w" "k s' = Some x" by blast
    with True show ?thesis
      by (intro exI [of _ "c # w"] exI [of _ s']) simp
  next
    case False
    with Cons.prems have "k (c # cs) = Some x"
      by (auto split: if_splits option.splits)
    then show ?thesis
      by (intro exI [of _ "[]"] exI [of _ "c # cs"]) simp
  qed
qed

lemma re_lit_match: "re_lit xs k (xs @ s) = k s"
  by (induction xs) simp_all

lemma re_lit_decomp: "re_lit xs k s = Some x \<Longrightarrow> \<exists>s'. s = xs @ s' \<and> k s' = Some x"
proof (induction xs arbitrary: s)
  case Nil
  then show ?case by simp
next
  case (Cons a xs)
  from Cons.prems obtain cs where s: "s = a # cs" and "re_lit xs k cs = Some x"
    by (cases s) (simp_all split: if_splits)
  with Cons.IH [of cs] show ?case by auto
qed

lemma re_lit_ci_match: "map to_lower kw = xs \<Longrightarrow> re_lit_ci xs k (kw @ s) = k s"
  by (induction kw arbitrary: xs) auto

lemma re_lit_ci_decomp:
  "re_lit_ci xs k s = Some x \<Longrightarrow> \<exists>kw s'. s = kw @ s' \<and> map to_lower kw = xs \<and> k s' = Some x"
proof (induction xs arbitrary: s)
  case Nil
  then show ?case by simp
next
  case (Cons a xs)
  from Cons.prems obtain c cs where s: "s = c # cs" and c: "to_lower c = a"
    and "re_lit_ci xs k cs = Some x"
    by (cases s) (simp_all split: if_splits)
  with Cons.IH [of cs] obtain kw s' where "cs = kw @ s'" "map to_lower kw = xs" "k s' = Some x"
    by blast
  with s c show ?case
    by (intro exI [of _ "c # kw"] exI [of _ s']) simp
qed

lemma re_eol_iff: "re_eol k s = Some x \<longleftrightarrow> (s = [] \<or> hd s = newline) \<and> k s = Some x"
  by (cases s) (auto simp: re_eol_def)

lemma re_group_star_decomp:
  "re_group_star p acc k s = Some x \<Longrightarrow>
   \<exists>g s'. s = g @ s' \<and> list_all p g \<and> k (acc @ g) s' = Some x"
proof (induction s arbitrary: acc)
  case Nil
  then show ?case by simp
next
  case (Cons c cs)
  show ?case
  proof (cases "p c \<and> re_group_star p (acc @ [c]) k cs = Some x")
    case True
    with Cons.IH [of "acc @ [c]"] obtain g s' where
      "cs = g @ s'" "list_all p g" "k ((acc @ [c]) @ g) s' = Some x" by blast
    with True show ?thesis
      by (intro exI [of _ "c # g"] exI [of _ s']) simp
  next
    case False
    with Cons.prems have "k acc (c # cs) = Some x"
      by (auto split: if_splits option.splits)
    then show ?thesis
      by (intro exI [of _ "[]"] exI [of _ "c # cs"]) simp
  qed
qed

lemma re_group_star_none_longer:
  "(\<And>g s'. s = g @ s' \<Longrightarrow> g \<noteq> [] \<Longrightarrow> k (acc @ g) s' = None) \<Longrightarrow>
   re_group_star p acc k s = k acc s"
proof (induction s arbitrary: acc)
  case Nil
  then show ?case by simp
next
  case (Cons c cs)
  have "re_group_star p (acc @ [c]) k cs = k (acc @ [c]) cs"
  proof (rule Cons.IH)
    fix g s' assume "cs = g @ s'" "g \<noteq> []"
    then show "k ((acc @ [c]) @ g) s' = None"
      using Cons.prems [of "c # g" s'] by simp
  qed
  moreover have "k (acc @ [c]) cs = None"
    using Cons.prems [of "[c]" cs] by simp
  ultimately show ?case by simp
qed

lemma re_group_star_longest:
  "list_all p g \<Longrightarrow> (\<And>g' s'. s = g' @ s' \<Longrightarrow> g' \<noteq> [] \<Longrightarrow> k (acc @ g @ g') s' = None) \<Longrightarrow>
   k (acc @ g) s = Some x \<Longrightarrow> re_group_star p acc k (g @ s) = Some x"
proof (induction g arbitrary: acc)
  case Nil
  then show ?case using re_group_star_none_longer [of s k acc p] by simp
next
  case (Cons c g)
  have "re_group_star p (acc @ [c]) k (g @ s) = Some x"
  proof (rule Cons.IH)
    show "list_all p g" using Cons.prems(1) by simp
    show "k ((acc @ [c]) @ g @ g') s' = None" if "s = g' @ s'" "g' \<noteq> []" for g' s'
      using Cons.prems(2) [OF that] by simp
    show "k ((acc @ [c]) @ g) s = Some x" using Cons.prems(3) by simp
  qed
  with Cons.prems(1) show ?case by simp
qed

lemma re_group_star_success:
  "list_all p g \<Longrightarrow> k (acc @ g) s \<noteq> None \<Longrightarrow> re_group_star p acc k (g @ s) \<noteq> None"
proof (induction g arbitrary: acc)
  case Nil
  then show ?case by (cases s) (auto split: option.splits)
next
  case (Cons c g)
  from Cons.IH [of "acc @ [c]"] Cons.prems
  have "re_group_star p (acc @ [c]) k (g @ s) \<noteq> None" by simp
  with Cons.prems(1) show ?case by (auto split: option.splits)
qed

lemma re_group_star_prefix:
  "list_all p g \<Longrightarrow> s = [] \<or> \<not> p (hd s) \<Longrightarrow> k (acc @ g) s = Some x \<Longrightarrow>
   re_group_star p acc k (g @ s) = Some x"
proof (induction g arbitrary: acc)
  case Nil
  then show ?case by (cases s) auto
next
  case (Cons c g)
  from Cons.IH [of "acc @ [c]"] Cons.prems show ?case by simp
qed

lemma re_group_plus_prefix:
  assumes "list_all p g" and "g \<noteq> []" and "s = [] \<or> \<not> p (hd s)" and "k g s = Some x"
  shows "re_group_plus p k (g @ s) = Some x"
proof -
  from assms(2) obtain c g' where g: "g = c # g'" by (cases g) auto
  with assms(1) have "p c" "list_all p g'" by simp_all
  from re_group_star_prefix [OF this(2) assms(3), of k "[c]" x] assms(4) g \<open>p c\<close>
  show ?thesis by simp
qed

lemma re_star_none: "s = [] \<or> \<not> p (hd s) \<Longrightarrow> re_star p k s = k s"
  by (cases s) auto

subsection \<open>The marker patterns\<close>

lemma col_sep_tail: "col_sep = marker_tail Some"
  by (simp add: col_sep_def marker_tail_def)

lemma row_close_head: "row_close = marker_head ''end'' (marker_tail Some)"
  by (simp add: row_close_def marker_head_def marker_tail_def)

lemma row_open_head:
  "row_open = marker_head ''row'' (re_star is_space
     (re_group_star row_args_char [] (\<lambda>g. marker_tail (\<lambda>r. Some (g, r)))))"
  by (simp add: row_open_def marker_head_def marker_tail_def)

lemma dash_not_space: "\<not> is_space CHR ''-''"
  by (simp add: is_space_def)

lemma space_to_lower: "is_space c \<Longrightarrow> to_lower c = c"
  by (auto simp: is_space_def to_lower_def Let_def)

lemma space_row_args_char: "is_space c \<Longrightarrow> row_args_char c"
  by (simp add: row_args_char_def in_row_args_set_def)

lemma dash_row_args_char: "row_args_char CHR ''-''"
  by (simp add: row_args_char_def in_row_args_set_def)

lemma keyword_not_space:
  "\<not> is_space CHR ''r''" "\<not> is_space CHR ''e''"
  by (simp_all add: is_space_def)

lemma dropWhile_all: "list_all p w \<Longrightarrow> (s = [] \<or> \<not> p (hd s)) \<Longrightarrow> dropWhile p (w @ s) = s"
  by (induction w) (auto simp: neq_Nil_conv dropWhile_eq_self_iff)

lemma takeWhile_all: "list_all p (takeWhile p s)"
  by (induction s) simp_all

lemma dropWhile_head: "dropWhile p s = [] \<or> \<not> p (hd (dropWhile p s))"
  by (induction s) simp_all

lemma lit_dashes_space: "is_space c \<Longrightarrow> re_lit ''--'' k (c # cs) = None"
  using dash_not_space by auto

lemma marker_tail_skip:
  "marker_tail k s = re_lit ''--'' (re_star is_space (re_eol k)) (dropWhile is_space s)"
  unfolding marker_tail_def by (rule re_star_skip) (rule lit_dashes_space)

lemma marker_tail_match:
  assumes "list_all is_space w1" and "list_all is_space w2" and "k [] = Some x"
  shows "marker_tail k (w1 @ ''--'' @ w2) = Some x"
proof -
  have "dropWhile is_space (w1 @ ''--'' @ w2) = ''--'' @ w2"
    using assms(1) by (rule dropWhile_all) (simp add: dash_not_space)
  moreover have "re_star is_space (re_eol k) (w2 @ []) = Some x"
    using assms(2) by (rule re_star_greedy) (simp_all add: re_eol_def assms(3))
  ultimately show ?thesis
    by (simp add: marker_tail_skip)
qed

lemma marker_tail_none:
  assumes "list_all is_space w" and "s = w \<or> s = CHR ''-'' # w"
  shows "marker_tail k s = None"
proof -
  from assms(2) show ?thesis
  proof
    assume "s = w"
    with assms(1) have d: "dropWhile is_space s = []"
      by (simp add: list_all_iff)
    show ?thesis unfolding marker_tail_skip d by simp
  next
    assume s: "s = CHR ''-'' # w"
    then have "dropWhile is_space s = CHR ''-'' # w"
      by (simp add: dash_not_space)
    moreover have "re_lit ''-'' k' w = None" for k' :: "string \<Rightarrow> 'a option"
      using assms(1) dash_not_space by (cases w) auto
    ultimately show ?thesis by (simp add: marker_tail_skip)
  qed
qed

lemma marker_tail_decomp:
  assumes "marker_tail k s = Some x"
  shows "\<exists>w1 w2 r. list_all is_space w1 \<and> list_all is_space w2 \<and> s = w1 @ ''--'' @ w2 @ r \<and>
    (r = [] \<or> hd r = newline) \<and> k r = Some x"
proof -
  from assms obtain w1 s1 where 1: "s = w1 @ s1" "list_all is_space w1"
    and "re_lit ''--'' (re_star is_space (re_eol k)) s1 = Some x"
    unfolding marker_tail_def by (blast dest: re_star_decomp)
  then obtain s2 where 2: "s1 = ''--'' @ s2" and "re_star is_space (re_eol k) s2 = Some x"
    by (blast dest: re_lit_decomp)
  then obtain w2 r where 3: "s2 = w2 @ r" "list_all is_space w2" and "re_eol k r = Some x"
    by (blast dest: re_star_decomp)
  then have "(r = [] \<or> hd r = newline) \<and> k r = Some x"
    by (simp add: re_eol_iff)
  with 1 2 3 show ?thesis by blast
qed

lemma lit_ci_space:
  assumes "\<not> is_space a" and "is_space c"
  shows "re_lit_ci (a # kw) k (c # cs) = None"
  using assms space_to_lower [of c] by auto

lemma marker_head_skip:
  assumes "\<not> is_space a"
  shows "marker_head (a # kw) k s =
    re_lit ''--'' (\<lambda>s1. re_lit_ci (a # kw) k (dropWhile is_space s1)) (dropWhile is_space s)"
proof -
  have "re_star is_space (re_lit_ci (a # kw) k) = (\<lambda>s1. re_lit_ci (a # kw) k (dropWhile is_space s1))"
    by (rule ext, rule re_star_skip, rule lit_ci_space [OF assms])
  moreover have "re_star is_space (re_lit ''--'' k') s = re_lit ''--'' k' (dropWhile is_space s)"
    for k' :: "string \<Rightarrow> 'a option"
    by (rule re_star_skip) (rule lit_dashes_space)
  ultimately show ?thesis
    unfolding marker_head_def by simp
qed

lemma keyword_head:
  assumes "map to_lower kw = a # xs" and "\<not> is_space a"
  shows "kw @ s \<noteq> [] \<and> \<not> is_space (hd (kw @ s))"
proof -
  from assms(1) obtain c cs where kw: "kw = c # cs" and "to_lower c = a"
    by (cases kw) auto
  with assms(2) space_to_lower [of c] have "\<not> is_space c" by auto
  with kw show ?thesis by simp
qed

lemma marker_head_match:
  assumes "list_all is_space w1" and "list_all is_space w2"
    and "map to_lower kw = a # xs" and "\<not> is_space a"
  shows "marker_head (a # xs) k (w1 @ ''--'' @ w2 @ kw @ s) = k s"
proof -
  have 1: "dropWhile is_space (w1 @ ''--'' @ w2 @ kw @ s) = ''--'' @ w2 @ kw @ s"
    using assms(1) by (rule dropWhile_all) (simp add: dash_not_space)
  have 2: "dropWhile is_space (w2 @ kw @ s) = kw @ s"
    using assms(2) keyword_head [OF assms(3,4), of s] by (intro dropWhile_all) simp_all
  show ?thesis
    by (simp only: marker_head_skip [OF assms(4)] 1 re_lit_match 2 re_lit_ci_match [OF assms(3)])
qed

lemma marker_head_decomp:
  assumes "marker_head kw k s = Some x"
  shows "\<exists>w1 w2 kw' s'. list_all is_space w1 \<and> list_all is_space w2 \<and> map to_lower kw' = kw \<and>
    s = w1 @ ''--'' @ w2 @ kw' @ s' \<and> k s' = Some x"
proof -
  from assms obtain w1 s1 where 1: "s = w1 @ s1" "list_all is_space w1"
    and "re_lit ''--'' (re_star is_space (re_lit_ci kw k)) s1 = Some x"
    unfolding marker_head_def by (blast dest: re_star_decomp)
  then obtain s2 where 2: "s1 = ''--'' @ s2" and "re_star is_space (re_lit_ci kw k) s2 = Some x"
    by (blast dest: re_lit_decomp)
  then obtain w2 s3 where 3: "s2 = w2 @ s3" "list_all is_space w2" and "re_lit_ci kw k s3 = Some x"
    by (blast dest: re_star_decomp)
  then obtain kw' s' where 4: "s3 = kw' @ s'" "map to_lower kw' = kw" "k s' = Some x"
    by (blast dest: re_lit_ci_decomp)
  with 1 2 3 show ?thesis by blast
qed

text \<open>A line cannot start two different keywords.\<close>

lemma marker_head_exclusive:
  assumes "marker_head (a # xs) k s = Some x" and "\<not> is_space a" and "\<not> is_space b" and "a \<noteq> b"
  shows "marker_head (b # ys) k' s = None"
proof -
  from marker_head_decomp [OF assms(1)] obtain w1 w2 kw s' where
    w: "list_all is_space w1" "list_all is_space w2" and kw: "map to_lower kw = a # xs"
    and s: "s = w1 @ ''--'' @ w2 @ kw @ s'" and "k s' = Some x"
    by (elim exE conjE)
  have 1: "dropWhile is_space (w1 @ ''--'' @ w2 @ kw @ s') = ''--'' @ w2 @ kw @ s'"
    using w(1) by (rule dropWhile_all) (simp add: dash_not_space)
  have 2: "dropWhile is_space (w2 @ kw @ s') = kw @ s'"
    using w(2) keyword_head [OF kw assms(2), of s'] by (intro dropWhile_all) simp_all
  from kw obtain c cs where c: "kw = c # cs" "to_lower c = a"
    by (cases kw) auto
  with assms(4) have "re_lit_ci (b # ys) k' (kw @ s') = None" by simp
  then show ?thesis
    unfolding s by (simp only: marker_head_skip [OF assms(3)] 1 re_lit_match 2)
qed

lemma row_open_not_close: "row_open line = Some x \<Longrightarrow> row_close line = None"
  unfolding row_open_head row_close_head
  by (erule marker_head_exclusive) (simp_all add: keyword_not_space)

lemma marker_head_sep_form:
  assumes "list_all is_space w1" and "list_all is_space w2" and "\<not> is_space a"
  shows "marker_head (a # xs) k (w1 @ ''--'' @ w2) = None"
proof -
  have 1: "dropWhile is_space (w1 @ ''--'' @ w2) = ''--'' @ w2"
    using assms(1) by (rule dropWhile_all) (simp add: dash_not_space)
  have 2: "dropWhile is_space w2 = []"
    using assms(2) by (simp add: list_all_iff)
  show ?thesis
    by (simp only: marker_head_skip [OF assms(3)] 1 re_lit_match 2 re_lit_ci.simps)
qed

lemma col_sep_match:
  "list_all is_space w1 \<Longrightarrow> list_all is_space w2 \<Longrightarrow> col_sep (w1 @ ''--'' @ w2) = Some []"
  unfolding col_sep_tail by (rule marker_tail_match) simp_all

lemma row_close_match:
  assumes "list_all is_space w1" and "list_all is_space w2" and "map to_lower kw = ''end''"
    and "list_all is_space w3" and "list_all is_space w4"
  shows "row_close (w1 @ ''--'' @ w2 @ kw @ w3 @ ''--'' @ w4) = Some []"
proof -
  have "row_close (w1 @ ''--'' @ w2 @ kw @ w3 @ ''--'' @ w4) = marker_tail Some (w3 @ ''--'' @ w4)"
    unfolding row_close_head
    by (rule marker_head_match [OF assms(1,2,3)]) (rule keyword_not_space)
  also have "\<dots> = Some []"
    using assms(4,5) by (rule marker_tail_match) simp
  finally show ?thesis .
qed

lemma dashes_split:
  assumes "''--'' @ w = g @ s" and "g \<noteq> []" and "list_all is_space w"
  shows "\<exists>w'. list_all is_space w' \<and> (s = w' \<or> s = CHR ''-'' # w')"
proof -
  from assms(2) obtain c g1 where g: "g = c # g1" by (cases g) auto
  with assms(1) have 1: "CHR ''-'' # w = g1 @ s" by auto
  show ?thesis
  proof (cases g1)
    case Nil
    with 1 assms(3) show ?thesis by auto
  next
    case (Cons d g2)
    with 1 have "w = g2 @ s" by simp
    with assms(3) have "list_all is_space s" by simp
    then show ?thesis by blast
  qed
qed

lemma row_open_match:
  assumes "list_all is_space w1" and "list_all is_space w2" and "map to_lower kw = ''row''"
    and "list_all is_space w3" and "list_all row_args_char args"
    and "args = [] \<or> \<not> is_space (hd args)" and "list_all is_space w4"
  shows "row_open (w1 @ ''--'' @ w2 @ kw @ w3 @ args @ ''--'' @ w4) = Some (args, [])"
proof -
  let ?K2 = "\<lambda>g. marker_tail (\<lambda>r. Some (g, r))"
  let ?K = "re_star is_space (re_group_star row_args_char [] ?K2)"
  have "row_open (w1 @ ''--'' @ w2 @ kw @ w3 @ args @ ''--'' @ w4) = ?K (w3 @ args @ ''--'' @ w4)"
    unfolding row_open_head
    by (rule marker_head_match [OF assms(1,2,3)]) (rule keyword_not_space)
  also have "\<dots> = Some (args, [])"
  proof (rule re_star_greedy [OF assms(4)])
    show "args @ ''--'' @ w4 = [] \<or> \<not> is_space (hd (args @ ''--'' @ w4))"
      using assms(6) dash_not_space by (cases args) simp_all
    show "re_group_star row_args_char [] ?K2 (args @ ''--'' @ w4) = Some (args, [])"
    proof (rule re_group_star_longest [OF assms(5)])
      fix g' s' assume "''--'' @ w4 = g' @ s'" and "g' \<noteq> []"
      from dashes_split [OF this assms(7)] obtain w' where
        "list_all is_space w'" "s' = w' \<or> s' = CHR ''-'' # w'" by blast
      then show "marker_tail (\<lambda>r. Some ([] @ args @ g', r)) s' = None"
        by (rule marker_tail_none)
    next
      have "marker_tail (\<lambda>r. Some ([] @ args, r)) ([] @ ''--'' @ w4) = Some (args, [])"
        by (rule marker_tail_match) (simp_all add: assms(7))
      then show "marker_tail (\<lambda>r. Some ([] @ args, r)) (''--'' @ w4) = Some (args, [])"
        by simp
    qed
  qed
  finally show ?thesis .
qed

lemma no_newline_rest:
  assumes "newline \<notin> set line" and "line = pre @ r" and "r = [] \<or> hd r = newline"
  shows "r = []"
proof (rule ccontr)
  assume "r \<noteq> []"
  with assms(3) have "newline \<in> set r" by (cases r) auto
  with assms(1,2) show False by simp
qed

lemma col_sep_form:
  assumes "col_sep line = Some r" and "newline \<notin> set line"
  shows "r = [] \<and> (\<exists>w1 w2. list_all is_space w1 \<and> list_all is_space w2 \<and> line = w1 @ ''--'' @ w2)"
proof -
  from marker_tail_decomp [OF assms(1) [unfolded col_sep_tail]] obtain w1 w2 r' where
    w: "list_all is_space w1" "list_all is_space w2" and line: "line = w1 @ ''--'' @ w2 @ r'"
    and r': "r' = [] \<or> hd r' = newline" and "Some r' = Some r"
    by (elim exE conjE)
  from line have "line = (w1 @ ''--'' @ w2) @ r'" by simp
  from no_newline_rest [OF assms(2) this r'] have "r' = []" .
  with line \<open>Some r' = Some r\<close> have "r = []" and "line = w1 @ ''--'' @ w2"
    by simp_all
  with w show ?thesis by blast
qed

lemma row_close_form:
  assumes "row_close line = Some r" and "newline \<notin> set line"
  shows "r = [] \<and> (\<exists>w1 w2 kw w3 w4. list_all is_space w1 \<and> list_all is_space w2 \<and>
    map to_lower kw = ''end'' \<and> list_all is_space w3 \<and> list_all is_space w4 \<and>
    line = w1 @ ''--'' @ w2 @ kw @ w3 @ ''--'' @ w4)"
proof -
  from marker_head_decomp [OF assms(1) [unfolded row_close_head]] obtain w1 w2 kw s where
    w: "list_all is_space w1" "list_all is_space w2" and kw: "map to_lower kw = ''end''"
    and line: "line = w1 @ ''--'' @ w2 @ kw @ s" and s: "marker_tail Some s = Some r"
    by (elim exE conjE)
  from marker_tail_decomp [OF s] obtain w3 w4 r' where
    w': "list_all is_space w3" "list_all is_space w4" and s': "s = w3 @ ''--'' @ w4 @ r'"
    and r': "r' = [] \<or> hd r' = newline" and eq: "Some r' = Some r"
    by (elim exE conjE)
  from line s' have "line = (w1 @ ''--'' @ w2 @ kw @ w3 @ ''--'' @ w4) @ r'" by simp
  from no_newline_rest [OF assms(2) this r'] have "r' = []" .
  with line s' eq have "r = []" and "line = w1 @ ''--'' @ w2 @ kw @ w3 @ ''--'' @ w4"
    by simp_all
  with w kw w' show ?thesis by (iprover intro: exI conjI)
qed

lemma row_open_form:
  assumes "row_open line = Some (args, r)" and "newline \<notin> set line"
  shows "r = [] \<and> (\<exists>w1 w2 kw w3 w4. list_all is_space w1 \<and> list_all is_space w2 \<and>
    map to_lower kw = ''row'' \<and> list_all is_space w3 \<and> list_all row_args_char args \<and>
    (args = [] \<or> \<not> is_space (hd args)) \<and> list_all is_space w4 \<and>
    line = w1 @ ''--'' @ w2 @ kw @ w3 @ args @ ''--'' @ w4)"
proof -
  let ?K2 = "\<lambda>g. marker_tail (\<lambda>r. Some (g, r))"
  from marker_head_decomp [OF assms(1) [unfolded row_open_head]] obtain w1 w2 kw s where
    w: "list_all is_space w1" "list_all is_space w2" and kw: "map to_lower kw = ''row''"
    and line: "line = w1 @ ''--'' @ w2 @ kw @ s"
    and s: "re_star is_space (re_group_star row_args_char [] ?K2) s = Some (args, r)"
    by (elim exE conjE)
  from re_star_decomp [OF s] obtain w3 s1 where w3: "list_all is_space w3" and s1: "s = w3 @ s1"
    and "re_group_star row_args_char [] ?K2 s1 = Some (args, r)"
    by (elim exE conjE)
  from re_group_star_decomp [OF this(3)] obtain g s2 where g: "list_all row_args_char g"
    and s2: "s1 = g @ s2" and "marker_tail (\<lambda>r. Some ([] @ g, r)) s2 = Some (args, r)"
    by (elim exE conjE)
  from marker_tail_decomp [OF this(3)] obtain w4 w5 r' where
    w45: "list_all is_space w4" "list_all is_space w5" and s2': "s2 = w4 @ ''--'' @ w5 @ r'"
    and r': "r' = [] \<or> hd r' = newline" and "Some ([] @ g, r') = Some (args, r)"
    by (elim exE conjE)
  from line s1 s2 s2' have "line = (w1 @ ''--'' @ w2 @ kw @ w3 @ g @ w4 @ ''--'' @ w5) @ r'"
    by simp
  from no_newline_rest [OF assms(2) this r'] have "r' = []" .
  with \<open>Some ([] @ g, r') = Some (args, r)\<close> have r: "r = []" by simp
  let ?G = "g @ w4"
  let ?w3 = "w3 @ takeWhile is_space ?G"
  let ?args = "dropWhile is_space ?G"
  have G: "list_all row_args_char ?G"
    using g w45(1) by (auto simp: list_all_iff space_row_args_char)
  have a1: "list_all is_space ?w3"
    using w3 by (simp add: takeWhile_all)
  have a2: "list_all row_args_char ?args"
    using G by (auto simp: list_all_iff dest: set_dropWhileD)
  have a3: "?args = [] \<or> \<not> is_space (hd ?args)"
    by (rule dropWhile_head)
  have "line = w1 @ ''--'' @ w2 @ kw @ w3 @ (takeWhile is_space ?G @ dropWhile is_space ?G) @ ''--'' @ w5"
    using line s1 s2 s2' \<open>r' = []\<close> by (simp only: takeWhile_dropWhile_id) simp
  then have line': "line = w1 @ ''--'' @ w2 @ kw @ ?w3 @ ?args @ ''--'' @ w5"
    by simp
  from row_open_match [OF w kw a1 a2 a3 w45(2)] line'
  have "row_open line = Some (?args, [])" by simp
  with assms(1) have "args = ?args" by simp
  show ?thesis
    unfolding \<open>args = ?args\<close> using w kw a1 a2 a3 w45(2) line' r
    by (iprover intro: exI conjI)
qed

lemma sep_not_head:
  assumes "col_sep line = Some r" and "newline \<notin> set line"
  shows "row_open line = None \<and> row_close line = None"
proof -
  from col_sep_form [OF assms] obtain w1 w2 where
    "list_all is_space w1" "list_all is_space w2" "line = w1 @ ''--'' @ w2"
    by blast
  then show ?thesis
    unfolding row_open_head row_close_head
    by (simp only: marker_head_sep_form keyword_not_space not_False_eq_True simp_thms)
qed

text \<open>
  C9. A line is a string without a newline character (the lines of a document are what
  is between its newlines). For such a line the classification is one of four, decided
  by the shape of the whole line: it is a row-open marker with the arguments \<open>args\<close>
  exactly when it is whitespace, \<open>--\<close>, whitespace, \<open>row\<close> in any case, whitespace,
  \<open>args\<close>, \<open>--\<close> and whitespace, where \<open>args\<close> consists of characters of the argument set
  and does not start with whitespace; a row-close marker exactly when it is whitespace,
  \<open>--\<close>, whitespace, \<open>end\<close> in any case, whitespace, \<open>--\<close> and whitespace; a column
  separator exactly when it is whitespace, \<open>--\<close> and whitespace. At most one of the three
  patterns matches, and a match leaves no rest of the line.
\<close>

theorem marker_classification:
  assumes "newline \<notin> set line"
  shows
    "(classify line = RowOpenMarker args \<longleftrightarrow>
        (\<exists>w1 w2 kw w3 w4. list_all is_space w1 \<and> list_all is_space w2 \<and>
           map to_lower kw = ''row'' \<and> list_all is_space w3 \<and> list_all row_args_char args \<and>
           (args = [] \<or> \<not> is_space (hd args)) \<and> list_all is_space w4 \<and>
           line = w1 @ ''--'' @ w2 @ kw @ w3 @ args @ ''--'' @ w4)) \<and>
     (classify line = RowCloseMarker \<longleftrightarrow>
        (\<exists>w1 w2 kw w3 w4. list_all is_space w1 \<and> list_all is_space w2 \<and>
           map to_lower kw = ''end'' \<and> list_all is_space w3 \<and> list_all is_space w4 \<and>
           line = w1 @ ''--'' @ w2 @ kw @ w3 @ ''--'' @ w4)) \<and>
     (classify line = ColSeparatorMarker \<longleftrightarrow>
        (\<exists>w1 w2. list_all is_space w1 \<and> list_all is_space w2 \<and> line = w1 @ ''--'' @ w2)) \<and>
     (row_open line \<noteq> None \<longrightarrow> row_close line = None \<and> col_sep line = None) \<and>
     (row_close line \<noteq> None \<longrightarrow> col_sep line = None) \<and>
     (\<forall>g r. row_open line = Some (g, r) \<longrightarrow> r = []) \<and>
     (\<forall>r. row_close line = Some r \<longrightarrow> r = []) \<and>
     (\<forall>r. col_sep line = Some r \<longrightarrow> r = [])"
proof -
  have sep_excl: "col_sep line = None" if "row_open line \<noteq> None \<or> row_close line \<noteq> None"
  proof (cases "col_sep line")
    case None
    then show ?thesis .
  next
    case (Some r)
    from sep_not_head [OF Some assms] that show ?thesis by simp
  qed
  have open_iff: "classify line = RowOpenMarker args \<longleftrightarrow>
        (\<exists>w1 w2 kw w3 w4. list_all is_space w1 \<and> list_all is_space w2 \<and>
           map to_lower kw = ''row'' \<and> list_all is_space w3 \<and> list_all row_args_char args \<and>
           (args = [] \<or> \<not> is_space (hd args)) \<and> list_all is_space w4 \<and>
           line = w1 @ ''--'' @ w2 @ kw @ w3 @ args @ ''--'' @ w4)"
    (is "?L \<longleftrightarrow> ?R")
  proof
    assume ?L
    then obtain r where "row_open line = Some (args, r)"
      by (auto simp: classify_RowOpenMarker)
    from row_open_form [OF this assms] show ?R by (rule conjunct2)
  next
    assume ?R
    then obtain w1 w2 kw w3 w4 where "list_all is_space w1" "list_all is_space w2"
      "map to_lower kw = ''row''" "list_all is_space w3" "list_all row_args_char args"
      "args = [] \<or> \<not> is_space (hd args)" "list_all is_space w4"
      and line: "line = w1 @ ''--'' @ w2 @ kw @ w3 @ args @ ''--'' @ w4"
      by (elim exE conjE)
    from row_open_match [OF this(1-7)] line have "row_open line = Some (args, [])" by simp
    then show ?L by (simp add: classify_RowOpenMarker)
  qed
  have close_iff: "classify line = RowCloseMarker \<longleftrightarrow>
        (\<exists>w1 w2 kw w3 w4. list_all is_space w1 \<and> list_all is_space w2 \<and>
           map to_lower kw = ''end'' \<and> list_all is_space w3 \<and> list_all is_space w4 \<and>
           line = w1 @ ''--'' @ w2 @ kw @ w3 @ ''--'' @ w4)"
    (is "?L \<longleftrightarrow> ?R")
  proof
    assume ?L
    then obtain r where "row_close line = Some r"
      by (auto simp: classify_RowCloseMarker)
    from row_close_form [OF this assms] show ?R by (rule conjunct2)
  next
    assume ?R
    then obtain w1 w2 kw w3 w4 where "list_all is_space w1" "list_all is_space w2"
      "map to_lower kw = ''end''" "list_all is_space w3" "list_all is_space w4"
      and line: "line = w1 @ ''--'' @ w2 @ kw @ w3 @ ''--'' @ w4"
      by (elim exE conjE)
    from row_close_match [OF this(1-5)] line have c: "row_close line = Some []" by simp
    have "row_open line = None"
    proof (cases "row_open line")
      case None
      then show ?thesis .
    next
      case (Some x)
      from row_open_not_close [OF Some] c show ?thesis by simp
    qed
    with c show ?L by (simp add: classify_RowCloseMarker)
  qed
  have sep_iff: "classify line = ColSeparatorMarker \<longleftrightarrow>
        (\<exists>w1 w2. list_all is_space w1 \<and> list_all is_space w2 \<and> line = w1 @ ''--'' @ w2)"
    (is "?L \<longleftrightarrow> ?R")
  proof
    assume ?L
    then obtain r where "col_sep line = Some r"
      by (auto simp: classify_ColSeparatorMarker)
    from col_sep_form [OF this assms] show ?R by (rule conjunct2)
  next
    assume ?R
    then obtain w1 w2 where "list_all is_space w1" "list_all is_space w2"
      and line: "line = w1 @ ''--'' @ w2"
      by (elim exE conjE)
    from col_sep_match [OF this(1,2)] line have c: "col_sep line = Some []" by simp
    from sep_not_head [OF c assms] c show ?L by (simp add: classify_ColSeparatorMarker)
  qed
  have excl1: "row_open line \<noteq> None \<longrightarrow> row_close line = None \<and> col_sep line = None"
    using row_open_not_close [of line] sep_excl by auto
  have excl2: "row_close line \<noteq> None \<longrightarrow> col_sep line = None"
    using sep_excl by simp
  have anchor1: "\<forall>g r. row_open line = Some (g, r) \<longrightarrow> r = []"
    using row_open_form [OF _ assms] by blast
  have anchor2: "\<forall>r. row_close line = Some r \<longrightarrow> r = []"
    using row_close_form [OF _ assms] by blast
  have anchor3: "\<forall>r. col_sep line = Some r \<longrightarrow> r = []"
    using col_sep_form [OF _ assms] by blast
  show ?thesis
    by (intro conjI open_iff close_iff sep_iff excl1 excl2 anchor1 anchor2 anchor3)
qed

lemma row_open_example:
  "row_open (CHR 0x09 # '' -- Row  span4  offset1,4 : 2 --  '') = Some (''span4  offset1,4 : 2 '', [])"
  "row_close (CHR 0x09 # '' -- Row  span4  offset1,4 : 2 --  '') = None"
  "col_sep (CHR 0x09 # '' -- Row  span4  offset1,4 : 2 --  '') = None"
  by code_simp+

theorem marker_classification_witness:
  "newline \<notin> set (CHR 0x09 # '' -- Row  span4  offset1,4 : 2 --  '') \<and>
   classify (CHR 0x09 # '' -- Row  span4  offset1,4 : 2 --  '') =
     RowOpenMarker ''span4  offset1,4 : 2 '' \<and>
   row_close (CHR 0x09 # '' -- Row  span4  offset1,4 : 2 --  '') = None \<and>
   col_sep (CHR 0x09 # '' -- Row  span4  offset1,4 : 2 --  '') = None"
proof -
  have nn: "newline \<notin> set (CHR 0x09 # '' -- Row  span4  offset1,4 : 2 --  '')"
    by (simp add: newline_def)
  have ev: "classify (CHR 0x09 # '' -- Row  span4  offset1,4 : 2 --  '') =
      RowOpenMarker ''span4  offset1,4 : 2 ''"
    by (simp add: row_open_example classify_def)
  show ?thesis
    using marker_classification [OF nn, of "''span4  offset1,4 : 2 ''"]
    by (simp only: nn ev row_open_example simp_thms)
qed

text \<open>
  A string with a newline in it is not a line: under \<open>re.MULTILINE\<close> the \<open>$\<close> of a
  pattern also matches before the newline, so that a pattern can match a part of such a
  string, and two patterns can match it.
\<close>

lemma patterns_with_newline:
  "col_sep (''--'' @ [newline] @ ''Some text'') = Some (newline # ''Some text'')"
  "classify (''--'' @ [newline] @ ''Some text'') = ColSeparatorMarker"
  "row_open (''--'' @ [newline] @ ''row--'') = Some ([], [])"
  "col_sep (''--'' @ [newline] @ ''row--'') = Some (newline # ''row--'')"
  by code_simp+

lemma classify_examples:
  "classify ''Some text'' = NotAMarker"
  "classify ''a -- b'' = NotAMarker"
  "classify ''--end--'' = RowCloseMarker"
  "classify '' -- '' = ColSeparatorMarker"
  by code_simp+

section \<open>The argument parser\<close>

text \<open>
  \<open>parse_row_args\<close> raises \<open>AttributeError\<close> on every input: the attribute lookup stands
  on the path of every call.
\<close>

lemma parse_row_args_raises: "parse_row_args arguments profile = Inl AttributeError"
  by (simp add: parse_row_args_def parse_row_args_with_def GridConf_BOOTSTRAP_name_def Let_def)

text \<open>The examples of the docstring of \<open>expand_shortcuts\<close> hold.\<close>

lemma expand_shortcuts_docstring:
  "expand_shortcuts ''4:1'' True = ''span4 offset1''"
  "expand_shortcuts ''6'' True = ''span6''"
  "expand_shortcuts ''8'' False = ''8''"
  by code_simp+

lemma expand_shortcuts_not_bs: "expand_shortcuts arg False = arg"
  by (simp add: expand_shortcuts_def)

text \<open>
  With \<open>is_bs\<close> true, a token of digits becomes \<open>span\<close> and the digits, a token of
  digits, a colon and digits becomes \<open>span\<close>, the first digits, \<open>offset\<close> and the second
  digits, and a token that \<open>re_spnoff\<close> does not match stays as it is.
\<close>

lemma digit_not_space: "is_digit c \<Longrightarrow> \<not> is_space c"
  by (auto simp: is_digit_def is_space_def Let_def)

lemma digits_head:
  assumes "list_all is_digit g" and "g \<noteq> []"
  shows "g @ s \<noteq> [] \<and> \<not> is_space (hd (g @ s)) \<and> hd (g @ s) \<noteq> CHR '':''"
proof -
  from assms obtain c g' where "g = c # g'" "is_digit c" by (cases g) auto
  then show ?thesis by (auto simp: digit_not_space is_digit_def)
qed

lemma re_spnoff_span:
  assumes "list_all is_digit sp" and "sp \<noteq> []"
  shows "re_spnoff sp = Some (sp, None, [])"
proof -
  let ?A = "\<lambda>g1. re_star is_space (re_lit '':'' (re_star is_space (re_group_plus is_digit (\<lambda>g3.
            re_star is_space (re_eos (\<lambda>r. Some (g1, Some g3, r)))))))"
  let ?B = "\<lambda>g1. re_star is_space (re_eos (\<lambda>r. Some (g1, None :: string option, r)))"
  have "re_alt (?A sp) (?B sp) [] = Some (sp, None, [])"
    by (simp add: re_alt_def re_eos_def)
  with assms have "re_group_plus is_digit (\<lambda>g1. re_alt (?A g1) (?B g1)) (sp @ []) = Some (sp, None, [])"
    by (intro re_group_plus_prefix) simp_all
  moreover have "re_star is_space k sp = k sp" for k :: "string \<Rightarrow> (string \<times> string option \<times> string) option"
    using digits_head [OF assms, of "[]"] by (intro re_star_none) simp
  ultimately show ?thesis
    by (simp add: re_spnoff_def)
qed

lemma re_spnoff_span_offset:
  assumes "list_all is_digit sp" and "sp \<noteq> []" and "list_all is_digit ofs" and "ofs \<noteq> []"
  shows "re_spnoff (sp @ '':'' @ ofs) = Some (sp, Some ofs, [])"
proof -
  let ?K3 = "\<lambda>g1 g3. re_star is_space (re_eos (\<lambda>r. Some (g1, Some g3, r)))"
  let ?A = "\<lambda>g1. re_star is_space (re_lit '':'' (re_star is_space (re_group_plus is_digit (?K3 g1))))"
  let ?B = "\<lambda>g1. re_star is_space (re_eos (\<lambda>r. Some (g1, None :: string option, r)))"
  have skip: "re_star is_space k s = k s" if "s \<noteq> [] \<and> \<not> is_space (hd s)" for s
    and k :: "string \<Rightarrow> (string \<times> string option \<times> string) option"
    using that by (intro re_star_none) simp
  have "?K3 sp ofs [] = Some (sp, Some ofs, [])"
    by (simp add: re_eos_def)
  with assms(3,4) have "re_group_plus is_digit (?K3 sp) (ofs @ []) = Some (sp, Some ofs, [])"
    by (intro re_group_plus_prefix) simp_all
  then have "re_star is_space (re_group_plus is_digit (?K3 sp)) ofs = Some (sp, Some ofs, [])"
    using digits_head [OF assms(3,4), of "[]"] by (simp add: skip)
  then have "?A sp ('':'' @ ofs) = Some (sp, Some ofs, [])"
    by (simp add: skip is_space_def)
  then have "re_alt (?A sp) (?B sp) ('':'' @ ofs) = Some (sp, Some ofs, [])"
    by (simp add: re_alt_def)
  with assms(1,2)
  have "re_group_plus is_digit (\<lambda>g1. re_alt (?A g1) (?B g1)) (sp @ '':'' @ ofs) = Some (sp, Some ofs, [])"
    by (intro re_group_plus_prefix) (simp_all add: is_digit_def)
  then show ?thesis
    using digits_head [OF assms(1,2), of "'':'' @ ofs"] by (simp add: re_spnoff_def skip)
qed

lemma expand_shortcuts_span:
  "list_all is_digit sp \<Longrightarrow> sp \<noteq> [] \<Longrightarrow> expand_shortcuts sp True = ''span'' @ sp"
  by (simp add: expand_shortcuts_def re_spnoff_span expand_def)

lemma expand_shortcuts_span_offset:
  "list_all is_digit sp \<Longrightarrow> sp \<noteq> [] \<Longrightarrow> list_all is_digit ofs \<Longrightarrow> ofs \<noteq> [] \<Longrightarrow>
   expand_shortcuts (sp @ '':'' @ ofs) True = ''span'' @ sp @ '' offset'' @ ofs"
  using re_spnoff_span_offset [of sp ofs] by (simp add: expand_shortcuts_def expand_def)

lemma expand_shortcuts_no_match: "re_spnoff arg = None \<Longrightarrow> expand_shortcuts arg is_bs = arg"
  by (simp add: expand_shortcuts_def)

text \<open>
  What \<open>parse_row_args\<close> would return if the attribute lookup gave a profile name: the
  examples of its docstring.
\<close>

lemma parse_row_args_with_plain:
  "name \<noteq> PyNone \<Longrightarrow>
   parse_row_args_with (Inr name) ''span4 offset4, span4, span2'' PyNone =
     Inr [''span4 offset4'', ''span4'', ''span2'']"
  by (simp add: parse_row_args_with_def DEFAULT_SEPARATOR_def is_space_def expand_shortcuts_def)

lemma parse_row_args_with_not_bs:
  assumes "profile \<noteq> name"
  shows "parse_row_args_with (Inr name) arguments profile =
     Inr (let args = map (\<lambda>arg. join '' '' (split_ws [] arg)) (split_on CHR '','' arguments)
          in if args = [[]] then [] else args)"
proof -
  have "(length xs = 1 \<and> hd xs = []) = (xs = [[]])" for xs :: "string list"
    by (cases xs) auto
  with assms show ?thesis
    by (simp add: parse_row_args_with_def DEFAULT_SEPARATOR_def Let_def expand_shortcuts_def)
qed

lemma parse_row_args_with_shorthand:
  "parse_row_args_with (Inr (PyStr ''bootstrap'')) ''4:1, 4, 3'' (PyStr ''bootstrap'') =
     Inr [''span4 offset1'', ''span4'', ''span3'']"
  by code_simp

text \<open>
  C3. The claim: \<open>parse_row_args\<close> splits the argument string at the commas, normalises
  the whitespace of each token and returns the empty list when the only token is empty;
  on \<open>"span4 offset4, span4, span2"\<close> it returns
  \<open>["span4 offset4", "span4", "span2"]\<close>. The code: the call of the docstring,
  \<open>Parsers.parse_row_args("span4 offset4, span4, span2")\<close>, raises \<open>AttributeError\<close>.
\<close>

theorem parse_row_args_docstring_raises:
  "parse_row_args ''span4 offset4, span4, span2'' PyNone = Inl AttributeError"
  by (simp add: parse_row_args_raises)

text \<open>
  C4. The claim: under the shorthand profile the tokens \<open><span>\<close> and
  \<open><span>:<offset>\<close> are expanded, so that \<open>parse_row_args\<close> on \<open>"4:1, 4, 3"\<close> with that
  profile returns \<open>["span4 offset1", "span4", "span3"]\<close>. The code: the call of the
  docstring, \<open>Parsers.parse_row_args("4:1, 4, 3", profile='bootstrap')\<close>, raises
  \<open>AttributeError\<close>; no profile is the shorthand profile.
\<close>

theorem parse_row_args_shorthand_raises:
  "parse_row_args ''4:1, 4, 3'' (PyStr ''bootstrap'') = Inl AttributeError"
  by (simp add: parse_row_args_raises)

section \<open>The scan\<close>

lemma parse_line_not_a_marker:
  "classify line = NotAMarker \<Longrightarrow> parse_line_with bs profile st n line = Inr st"
  by (simp add: classify_NotAMarker parse_line_with_def)

lemma parse_line_underflow:
  "classify line = RowCloseMarker \<or> classify line = ColSeparatorMarker \<Longrightarrow>
   row_stack st = [] \<Longrightarrow>
   parse_line_with bs profile st n line = Inl IndexError"
  by (auto simp: classify_RowCloseMarker classify_ColSeparatorMarker parse_line_with_def)

lemma parse_line_row_open_raises:
  "row_open line = Some (args, r) \<Longrightarrow>
   parse_line_with GridConf_BOOTSTRAP_name profile st line_num line = Inl AttributeError"
  by (simp add: parse_line_with_def parse_row_args_with_def GridConf_BOOTSTRAP_name_def Let_def)

text \<open>
  The three branches of the loop body, when they complete: the command sequence of the
  line and the change of the stack.
\<close>

lemma parse_line_row_open:
  assumes "row_open line = Some (args, r)"
    and "parse_row_args_with bs args profile = Inr styles"
  shows "parse_line_with bs profile st n line =
     Inr (st\<lparr>row_stack := row_stack st @ [n],
             p_rows := AList.update n styles (p_rows st),
             p_r2c := AList.update n [n] (p_r2c st),
             p_cmds := AList.update n
               [GridCmdInfo_init ROW_OPEN, GridCmdInfo_init COL_OPEN] (p_cmds st)\<rparr>)"
  using assms by (simp add: parse_line_with_def Let_def)

lemma parse_line_row_close:
  assumes "classify line = RowCloseMarker" and "row_stack st \<noteq> []"
  shows "parse_line_with bs profile st n line =
     Inr (st\<lparr>p_cmds := AList.update n
               [GridCmdInfo_init COL_CLOSE, GridCmdInfo_init ROW_CLOSE] (p_cmds st),
             row_stack := butlast (row_stack st)\<rparr>)"
  using assms by (auto simp: classify_RowCloseMarker parse_line_with_def Let_def)

lemma parse_line_col_sep:
  assumes "classify line = ColSeparatorMarker" and "row_stack st \<noteq> []"
    and "map_of (p_r2c st) (last (row_stack st)) = Some cols"
  shows "parse_line_with bs profile st n line =
     Inr (st\<lparr>p_r2c := AList.update (last (row_stack st)) (cols @ [n]) (p_r2c st),
             p_cmds := AList.update n
               [GridCmdInfo_init COL_CLOSE, GridCmdInfo_init COL_OPEN] (p_cmds st)\<rparr>)"
  using assms by (auto simp: classify_ColSeparatorMarker parse_line_with_def)

lemma parse_loop_no_markers:
  "list_all (\<lambda>line. classify line = NotAMarker) ls \<Longrightarrow> parse_loop bs profile n ls st = Inr st"
  by (induction ls arbitrary: n) (simp_all add: parse_line_not_a_marker)

lemma parse_loop_append:
  "parse_loop bs profile n (xs @ ys) st =
     (case parse_loop bs profile n xs st of
        Inl e \<Rightarrow> Inl e
      | Inr st' \<Rightarrow> parse_loop bs profile (n + length xs) ys st')"
  by (induction xs arbitrary: n st) (simp_all split: sum.splits)

lemma parse_markers_with_no_markers:
  "list_all (\<lambda>line. classify line = NotAMarker) lines \<Longrightarrow>
   parse_markers_with bs lines profile = Inr ([], [], [])"
  by (simp add: parse_markers_with_def parse_loop_no_markers init_state_def)

text \<open>
  In the source, where the attribute lookup raises, the first marker line of a document
  ends the scan: a row-open line with \<open>AttributeError\<close>, a row-close or separator line
  with \<open>IndexError\<close>, the stack being still empty. So \<open>parse_markers\<close> returns exactly
  on the documents without marker lines.
\<close>

lemma parse_line_source_init:
  "parse_line_with GridConf_BOOTSTRAP_name profile init_state n line =
     (case classify line of
        RowOpenMarker args \<Rightarrow> Inl AttributeError
      | RowCloseMarker \<Rightarrow> Inl IndexError
      | ColSeparatorMarker \<Rightarrow> Inl IndexError
      | NotAMarker \<Rightarrow> Inr init_state)"
proof (cases "classify line")
  case (RowOpenMarker args)
  then obtain r where "row_open line = Some (args, r)"
    by (auto simp: classify_RowOpenMarker)
  from parse_line_row_open_raises [OF this] RowOpenMarker show ?thesis by simp
next
  case RowCloseMarker
  then show ?thesis by (simp add: parse_line_underflow init_state_def)
next
  case ColSeparatorMarker
  then show ?thesis by (simp add: parse_line_underflow init_state_def)
next
  case NotAMarker
  then show ?thesis by (simp add: parse_line_not_a_marker)
qed

lemma parse_loop_source:
  "parse_loop GridConf_BOOTSTRAP_name profile n ls init_state = Inr st \<Longrightarrow>
   list_all (\<lambda>line. classify line = NotAMarker) ls \<and> st = init_state"
proof (induction ls arbitrary: n)
  case Nil
  then show ?case by simp
next
  case (Cons line ls)
  from Cons.prems have "classify line = NotAMarker"
    by (cases "classify line") (simp_all add: parse_line_source_init)
  with Cons.prems Cons.IH [of "Suc n"] show ?case
    by (simp add: parse_line_source_init)
qed

lemma parse_markers_returns_iff:
  "parse_markers lines profile = Inr res \<longleftrightarrow>
     list_all (\<lambda>line. classify line = NotAMarker) lines \<and> res = ([], [], [])"
proof
  assume "parse_markers lines profile = Inr res"
  then obtain st where loop: "parse_loop GridConf_BOOTSTRAP_name profile 0 lines init_state = Inr st"
    and res: "close_open_rows (p_cmds st) (row_stack st) = Inr (fst (snd res))"
      "p_rows st = fst res" "p_r2c st = snd (snd res)"
    by (auto simp: parse_markers_def parse_markers_with_def split: sum.splits)
  from parse_loop_source [OF loop] res
  show "list_all (\<lambda>line. classify line = NotAMarker) lines \<and> res = ([], [], [])"
    by (cases res) (auto simp: init_state_def)
next
  assume "list_all (\<lambda>line. classify line = NotAMarker) lines \<and> res = ([], [], [])"
  then show "parse_markers lines profile = Inr res"
    by (simp add: parse_markers_def parse_markers_with_no_markers)
qed

lemma close_open_rows_Inr:
  "close_open_rows cmds stack = Inr cmds' \<longleftrightarrow> stack = [] \<and> cmds' = cmds"
  by (cases stack) auto

text \<open>A scan that ends with a row open makes \<open>parse_markers\<close> raise \<open>KeyError\<close>.\<close>

lemma parse_markers_with_open_row:
  assumes "parse_loop bs profile 0 lines init_state = Inr st" and "row_stack st \<noteq> []"
  shows "parse_markers_with bs lines profile = Inl KeyError"
  using assms by (cases "row_stack st") (simp_all add: parse_markers_with_def)

lemma row_open_plain: "row_open ''--row--'' = Some ([], [])"
  by code_simp

lemma row_open_with_args: "row_open ''-- row 4, 4 --'' = Some (''4, 4 '', [])"
  by code_simp

text \<open>
  C1. The claim: on a document with a row that is opened and never closed,
  \<open>parse_markers\<close> returns, with closing commands synthesised at a sentinel position.
  The code: on the document of the one line \<open>--row--\<close> it raises \<open>AttributeError\<close>, at
  the row-open line; and if the attribute lookup gave a profile name \<open>name\<close>, it would
  raise \<open>KeyError\<close> in the loop that is to close the open rows.
\<close>

theorem parse_markers_unclosed_row_raises:
  "parse_markers [''--row--''] profile = Inl AttributeError \<and>
   parse_markers_with (Inr name) [''--row--''] profile = Inl KeyError"
  by (simp add: parse_markers_def parse_markers_with_def parse_line_with_def row_open_plain
      parse_row_args_with_def GridConf_BOOTSTRAP_name_def Let_def init_state_def)

text \<open>
  C8. The claim: for every marker line \<open>parse_markers\<close> emits the command sequence of
  its marker type, \<open>[RowOpen, ColOpen]\<close> for a row-open line. The code: at a row-open
  line the loop body raises \<open>AttributeError\<close> before it stores a command sequence, in
  every state, so that no sequence is emitted for the lines of a well-formed row either.
\<close>

theorem row_open_line_emits_nothing:
  "parse_line_with GridConf_BOOTSTRAP_name profile st line_num ''-- row 4, 4 --'' =
     Inl AttributeError \<and>
   parse_markers [''-- row 4, 4 --'', ''a'', ''--'', ''b'', ''-- end --''] profile =
     Inl AttributeError"
  by (simp add: parse_markers_def parse_markers_with_def
      parse_line_row_open_raises [OF row_open_with_args])

section \<open>The balance of the commands\<close>

lemma update_fresh: "k \<notin> fst ` set al \<Longrightarrow> AList.update k v al = al @ [(k, v)]"
  by (induction al) auto

lemma count_cmds_fresh:
  "k \<notin> fst ` set al \<Longrightarrow>
   count_cmds t (AList.update k cs al) =
     count_cmds t al + length (filter (\<lambda>c. cmdtype c = t) cs)"
  by (simp add: update_fresh count_cmds_def)

lemma scan_inv_fresh: "scan_inv n st \<Longrightarrow> n \<notin> fst ` set (p_cmds st)"
  by (auto simp: scan_inv_def list_all_iff)

lemma scan_inv_keys:
  "list_all (\<lambda>k. k < n) (map fst al) \<Longrightarrow>
   list_all (\<lambda>k. k < Suc n) (map fst (AList.update n v al))"
  by (auto simp: list_all_iff AList.update_keys intro: less_SucI)

lemma scan_inv_step:
  assumes "scan_inv n st" and "parse_line_with bs profile st n line = Inr st'"
  shows "scan_inv (Suc n) st'"
proof -
  note fresh = scan_inv_fresh [OF assms(1)]
  from assms(1) have keys: "list_all (\<lambda>k. k < n) (map fst (p_cmds st))"
    and bal: "count_cmds ROW_OPEN (p_cmds st) =
      count_cmds ROW_CLOSE (p_cmds st) + length (row_stack st)"
    by (simp_all add: scan_inv_def)
  have keys': "list_all (\<lambda>k. k < Suc n) (map fst (p_cmds st))"
    using keys by (auto simp: list_all_iff intro: less_SucI)
  show ?thesis
  proof (cases "row_open line")
    case (Some a)
    then show ?thesis
      using assms(2) bal scan_inv_keys [OF keys]
      by (auto simp: parse_line_with_def scan_inv_def Let_def count_cmds_fresh [OF fresh]
            GridCmdInfo_init_def GridCmd_defs split: sum.splits prod.splits)
  next
    case None
    note no_open = this
    show ?thesis
    proof (cases "row_close line")
      case (Some r)
      then show ?thesis
        using assms(2) bal scan_inv_keys [OF keys] no_open
        by (auto simp: parse_line_with_def scan_inv_def Let_def count_cmds_fresh [OF fresh]
              GridCmdInfo_init_def GridCmd_defs split: if_splits)
    next
      case None
      then show ?thesis
        using assms(2) bal scan_inv_keys [OF keys] no_open keys'
        by (auto simp: parse_line_with_def scan_inv_def Let_def count_cmds_fresh [OF fresh]
              GridCmdInfo_init_def GridCmd_defs split: if_splits option.splits)
    qed
  qed
qed

lemma scan_inv_loop:
  "scan_inv n st \<Longrightarrow> parse_loop bs profile n ls st = Inr st' \<Longrightarrow>
   scan_inv (n + length ls) st'"
proof (induction ls arbitrary: n st)
  case Nil
  then show ?case by simp
next
  case (Cons line ls)
  from Cons.prems(2) obtain st1 where
    step: "parse_line_with bs profile st n line = Inr st1"
    and rest: "parse_loop bs profile (Suc n) ls st1 = Inr st'"
    by (auto split: sum.splits)
  from Cons.IH [OF scan_inv_step [OF Cons.prems(1) step] rest] show ?case by simp
qed

lemma scan_inv_init: "scan_inv 0 init_state"
  by (simp add: scan_inv_def init_state_def count_cmds_def)

text \<open>An example, with the attribute lookup yielding the profile name \<open>bootstrap\<close>.\<close>

lemma parse_markers_with_balanced_doc:
  "parse_markers_with (Inr (PyStr ''bootstrap''))
     [''--row 4, 4--'', ''a'', ''--'', ''b'', ''--end--''] (PyStr ''bootstrap'') =
   Inr ([(0, [''span4'', ''span4''])],
        [(0, [\<lparr>cmdtype = ROW_OPEN, style = None\<rparr>, \<lparr>cmdtype = COL_OPEN, style = None\<rparr>]),
         (2, [\<lparr>cmdtype = COL_CLOSE, style = None\<rparr>, \<lparr>cmdtype = COL_OPEN, style = None\<rparr>]),
         (4, [\<lparr>cmdtype = COL_CLOSE, style = None\<rparr>, \<lparr>cmdtype = ROW_CLOSE, style = None\<rparr>])],
        [(0, [0, 2])])"
  by code_simp

lemma unclosed_doc_patterns:
  "row_open ''--row 4, 4--'' = Some (''4, 4'', [])"
  "row_open ''a'' = None" "row_close ''a'' = None" "col_sep ''a'' = None"
  "row_open ''--'' = None" "row_close ''--'' = None" "col_sep ''--'' = Some []"
  "row_open ''b'' = None" "row_close ''b'' = None" "col_sep ''b'' = None"
  by code_simp+

text \<open>
  Whenever \<open>parse_markers\<close> returns, the command sequences it returns hold as many
  \<open>ROW_OPEN\<close> commands as \<open>ROW_CLOSE\<close> commands, whatever the attribute lookup \<open>bs\<close>
  of \<open>parse_row_args\<close> yields. The function returns only from a scan that ends with the
  stack empty (\<open>parse_markers_with_open_row\<close>), and \<open>parse_markers\<close> itself only on a
  document without marker lines (\<open>parse_markers_returns_iff\<close>), where there is no command
  to count.
\<close>

lemma parse_markers_balanced:
  assumes "parse_markers_with bs lines profile = Inr (rows, cmds, r2c)"
  shows "count_cmds ROW_OPEN cmds = count_cmds ROW_CLOSE cmds"
proof -
  from assms obtain st where
    loop: "parse_loop bs profile 0 lines init_state = Inr st"
    and fin: "close_open_rows (p_cmds st) (row_stack st) = Inr cmds"
    by (auto simp: parse_markers_with_def split: sum.splits)
  from fin have "row_stack st = []" and "cmds = p_cmds st"
    by (simp_all add: close_open_rows_Inr)
  moreover from scan_inv_loop [OF scan_inv_init loop]
  have "count_cmds ROW_OPEN (p_cmds st) =
      count_cmds ROW_CLOSE (p_cmds st) + length (row_stack st)"
    by (simp add: scan_inv_def)
  ultimately show ?thesis by simp
qed

lemma parse_markers_balanced_examples:
  "parse_markers [''Some text'', ''a -- b''] PyNone = Inr ([], [], []) \<and>
   count_cmds ROW_OPEN [] = count_cmds ROW_CLOSE [] \<and>
   (\<exists>rows cmds r2c.
      parse_markers_with (Inr (PyStr ''bootstrap''))
        [''--row 4, 4--'', ''a'', ''--'', ''b'', ''--end--''] (PyStr ''bootstrap'') =
        Inr (rows, cmds, r2c) \<and>
      count_cmds ROW_OPEN cmds = 1 \<and> count_cmds ROW_CLOSE cmds = 1)"
proof -
  have plain: "parse_markers_with GridConf_BOOTSTRAP_name [''Some text'', ''a -- b''] PyNone =
      Inr ([], [], [])"
    by (simp add: parse_markers_with_no_markers classify_examples)
  show ?thesis
    using parse_markers_balanced [OF plain] parse_markers_balanced [OF parse_markers_with_balanced_doc]
    by (simp add: parse_markers_def plain parse_markers_with_balanced_doc count_cmds_def
        GridCmd_defs)
qed

text \<open>
  C2. The claim: for every document, after \<open>parse_markers\<close> finishes, its
  end-of-document recovery included, there are as many \<open>ROW_OPEN\<close> commands as
  \<open>ROW_CLOSE\<close> commands. The code: on the document \<open>--row 4, 4--\<close>, \<open>a\<close>, \<open>--\<close>, \<open>b\<close>,
  a row of two columns that is not closed, \<open>parse_markers\<close> does not finish: it raises
  \<open>AttributeError\<close> at the row-open line. If the attribute lookup gave a profile name
  \<open>name\<close>, the scan would end with row 0 on the stack, one \<open>ROW_OPEN\<close> command and no
  \<open>ROW_CLOSE\<close> command, and the loop that is to close the open rows would raise
  \<open>KeyError\<close> on that state: the balance is not restored, and nothing is returned.
\<close>

theorem parse_markers_recovery_raises:
  "parse_markers [''--row 4, 4--'', ''a'', ''--'', ''b''] profile = Inl AttributeError \<and>
   (\<exists>st. parse_loop (Inr name) profile 0 [''--row 4, 4--'', ''a'', ''--'', ''b''] init_state =
        Inr st \<and>
      row_stack st = [0] \<and>
      count_cmds ROW_OPEN (p_cmds st) = 1 \<and> count_cmds ROW_CLOSE (p_cmds st) = 0 \<and>
      close_open_rows (p_cmds st) (row_stack st) = Inl KeyError) \<and>
   parse_markers_with (Inr name) [''--row 4, 4--'', ''a'', ''--'', ''b''] profile = Inl KeyError"
  by (simp add: parse_markers_def parse_markers_with_def parse_line_with_def
      unclosed_doc_patterns parse_row_args_with_def GridConf_BOOTSTRAP_name_def Let_def
      init_state_def count_cmds_def GridCmdInfo_init_def GridCmd_defs)

subsection \<open>The command sequences of a completed scan\<close>

text \<open>
  Whenever \<open>parse_markers\<close> returns, the command sequence of each line is the one of
  its marker type, and a line that is no marker has none.
\<close>

lemma parse_line_cmds:
  assumes "parse_line_with bs profile st n line = Inr st'" and "n \<notin> fst ` set (p_cmds st)"
  shows "map_of (p_cmds st') = (map_of (p_cmds st))(n := prescribed line) \<and>
    fst ` set (p_cmds st') \<subseteq> insert n (fst ` set (p_cmds st))"
proof (cases "classify line")
  case (RowOpenMarker args)
  then obtain r where ro: "row_open line = Some (args, r)"
    by (auto simp: classify_RowOpenMarker)
  with assms(1) obtain styles where "parse_row_args_with bs args profile = Inr styles"
    by (auto simp: parse_line_with_def Let_def split: sum.splits)
  from parse_line_row_open [OF ro this, of st n] assms(1) RowOpenMarker show ?thesis
    by (auto simp: prescribed_def AList.update_conv' AList.dom_update)
next
  case RowCloseMarker
  with assms(1) have "row_stack st \<noteq> []"
    by (auto simp: parse_line_underflow)
  from parse_line_row_close [OF RowCloseMarker this, of bs profile n] assms(1) RowCloseMarker
  show ?thesis
    by (auto simp: prescribed_def AList.update_conv' AList.dom_update)
next
  case ColSeparatorMarker
  with assms(1) have ne: "row_stack st \<noteq> []"
    by (auto simp: parse_line_underflow)
  with assms(1) ColSeparatorMarker obtain cols where
    "map_of (p_r2c st) (last (row_stack st)) = Some cols"
    by (auto simp: parse_line_with_def classify_ColSeparatorMarker split: option.splits)
  from parse_line_col_sep [OF ColSeparatorMarker ne this, of bs profile n] assms(1) ColSeparatorMarker
  show ?thesis
    by (auto simp: prescribed_def AList.update_conv' AList.dom_update)
next
  case NotAMarker
  with assms(1) have "st' = st"
    by (simp add: parse_line_not_a_marker)
  moreover from assms(2) have "map_of (p_cmds st) n = None"
    by (simp add: map_of_eq_None_iff)
  ultimately show ?thesis
    using NotAMarker by (auto simp: prescribed_def fun_eq_iff)
qed

lemma parse_loop_cmds:
  assumes "parse_loop bs profile n ls st = Inr st'" and "\<forall>k \<in> fst ` set (p_cmds st). k < n"
  shows "(\<forall>k. map_of (p_cmds st') k =
           (if n \<le> k \<and> k < n + length ls then prescribed (ls ! (k - n))
            else map_of (p_cmds st) k)) \<and>
    (\<forall>k \<in> fst ` set (p_cmds st'). k < n + length ls)"
  using assms
proof (induction ls arbitrary: n st)
  case Nil
  then show ?case by auto
next
  case (Cons line ls)
  from Cons.prems(1) obtain st1 where
    step: "parse_line_with bs profile st n line = Inr st1"
    and rest: "parse_loop bs profile (Suc n) ls st1 = Inr st'"
    by (auto split: sum.splits)
  have fresh: "n \<notin> fst ` set (p_cmds st)"
    using Cons.prems(2) by auto
  from parse_line_cmds [OF step fresh] have
    m1: "map_of (p_cmds st1) = (map_of (p_cmds st))(n := prescribed line)"
    and k1: "fst ` set (p_cmds st1) \<subseteq> insert n (fst ` set (p_cmds st))"
    by simp_all
  have "\<forall>k \<in> fst ` set (p_cmds st1). k < Suc n"
  proof
    fix k assume "k \<in> fst ` set (p_cmds st1)"
    with k1 have "k = n \<or> k \<in> fst ` set (p_cmds st)" by blast
    with Cons.prems(2) show "k < Suc n" by (auto intro: less_SucI)
  qed
  from Cons.IH [OF rest this] have
    m: "\<forall>k. map_of (p_cmds st') k =
           (if Suc n \<le> k \<and> k < Suc n + length ls then prescribed (ls ! (k - Suc n))
            else map_of (p_cmds st1) k)"
    and k: "\<forall>k \<in> fst ` set (p_cmds st'). k < Suc n + length ls"
    by simp_all
  have "map_of (p_cmds st') k =
           (if n \<le> k \<and> k < n + length (line # ls) then prescribed ((line # ls) ! (k - n))
            else map_of (p_cmds st) k)" for k
  proof (cases "k = n")
    case True
    with m m1 show ?thesis by simp
  next
    case False
    show ?thesis
    proof (cases "Suc n \<le> k \<and> k < Suc n + length ls")
      case True
      then have "(line # ls) ! (k - n) = ls ! (k - Suc n)"
        by (simp add: nth_Cons') 
      with True m show ?thesis by simp
    next
      case False
      with \<open>k \<noteq> n\<close> have "\<not> (n \<le> k \<and> k < n + length (line # ls))" by auto
      moreover from False m have "map_of (p_cmds st') k = map_of (p_cmds st1) k" by auto
      moreover from m1 \<open>k \<noteq> n\<close> have "map_of (p_cmds st1) k = map_of (p_cmds st) k" by simp
      ultimately show ?thesis by auto
    qed
  qed
  with k show ?case by simp
qed

lemma parse_markers_with_sequences:
  assumes "parse_markers_with bs lines profile = Inr (rows, cmds, r2c)"
  shows "map_of cmds i = (if i < length lines then prescribed (lines ! i) else None)"
proof -
  from assms obtain st where
    loop: "parse_loop bs profile 0 lines init_state = Inr st"
    and fin: "close_open_rows (p_cmds st) (row_stack st) = Inr cmds"
    by (auto simp: parse_markers_with_def split: sum.splits)
  from fin have cmds: "cmds = p_cmds st"
    by (simp add: close_open_rows_Inr)
  have "\<forall>k \<in> fst ` set (p_cmds init_state). k < 0"
    by (simp add: init_state_def)
  from parse_loop_cmds [OF loop this] show ?thesis
    by (simp add: cmds init_state_def)
qed

subsection \<open>The tables of a completed scan\<close>

text \<open>
  What \<open>parse_markers\<close> returns is what \<open>populate_cmd_params\<close> needs: every row has
  its column lines, no line is a column line twice, and every column line has a
  \<open>COL_OPEN\<close> command.
\<close>

lemma update_split:
  "map_of al k = Some v \<Longrightarrow>
   \<exists>pre post. al = pre @ (k, v) # post \<and> AList.update k v' al = pre @ (k, v') # post"
proof (induction al)
  case Nil
  then show ?case by simp
next
  case (Cons p al)
  show ?case
  proof (cases "fst p = k")
    case True
    with Cons.prems have "p = (k, v)" by (cases p) simp
    with True show ?thesis
      by (intro exI [of _ "[]"] exI [of _ al]) simp
  next
    case False
    with Cons.prems have "map_of al k = Some v" by (cases p) auto
    from Cons.IH [OF this] obtain pre post where
      "al = pre @ (k, v) # post" "AList.update k v' al = pre @ (k, v') # post" by blast
    with False show ?thesis
      by (intro exI [of _ "p # pre"] exI [of _ post]) simp
  qed
qed

lemma cols_of_keys:
  "distinct (map fst al) \<Longrightarrow> map (cols_of al) (map fst al) = map snd al"
proof (induction al)
  case Nil
  then show ?case by simp
next
  case (Cons p al)
  have "cols_of (p # al) k = cols_of al k" if "k \<in> fst ` set al" for k
    using that Cons.prems by (cases p) (auto simp: cols_of_def)
  then have "map (cols_of (p # al)) (map fst al) = map (cols_of al) (map fst al)"
    by simp
  with Cons show ?case by (cases p) (simp add: cols_of_def)
qed

lemma all_cols_keys: "distinct (map fst al) \<Longrightarrow> all_cols al (map fst al) = concat (map snd al)"
  by (simp only: all_cols_def cols_of_keys)

lemma tables_inv_init: "tables_inv 0 init_state"
  by (simp add: tables_inv_def init_state_def)

lemma tables_inv_step:
  assumes "tables_inv n st" and "parse_line_with bs profile st n line = Inr st'"
  shows "tables_inv (Suc n) st'"
proof -
  from assms(1) have
    keys: "map fst (p_rows st) = map fst (p_r2c st)"
    and dk: "distinct (map fst (p_r2c st))"
    and kr: "list_all (\<lambda>k. k < n) (map fst (p_r2c st))"
    and kc: "list_all (\<lambda>k. k < n) (map fst (p_cmds st))"
    and dc: "distinct (concat (map snd (p_r2c st)))"
    and cols: "list_all (\<lambda>l. l < n \<and> (case map_of (p_cmds st) l of None \<Rightarrow> False | Some cs \<Rightarrow> has_col_open cs))
        (concat (map snd (p_r2c st)))"
    and stack: "list_all (\<lambda>r. map_of (p_r2c st) r \<noteq> None) (row_stack st)"
    by (simp_all only: tables_inv_def)
  have fresh_r: "n \<notin> fst ` set (p_r2c st)" and fresh_c: "n \<notin> fst ` set (p_cmds st)"
    using kr kc by (auto simp: list_all_iff)
  have fresh_rows: "n \<notin> fst ` set (p_rows st)"
    using fresh_r keys by (metis set_map)
  have fresh_col: "n \<notin> set (concat (map snd (p_r2c st)))"
    using cols by (auto simp: list_all_iff)
  have kr': "list_all (\<lambda>k. k < Suc n) (map fst (p_r2c st))"
    using kr by (auto simp: list_all_iff intro: less_SucI)
  have kc': "list_all (\<lambda>k. k < Suc n) (map fst (p_cmds st))"
    using kc by (auto simp: list_all_iff intro: less_SucI)
  have cols_upd: "list_all (\<lambda>l. l < Suc n \<and>
        (case map_of (AList.update n cs (p_cmds st)) l of None \<Rightarrow> False | Some cs \<Rightarrow> has_col_open cs))
        (concat (map snd (p_r2c st)))" for cs
  proof -
    have "map_of (AList.update n cs (p_cmds st)) l = map_of (p_cmds st) l"
      if "l \<in> set (concat (map snd (p_r2c st)))" for l
      using that fresh_col by (auto simp: AList.update_conv')
    with cols show ?thesis
      by (auto simp: list_all_iff intro: less_SucI)
  qed
  have cols': "list_all (\<lambda>l. l < Suc n \<and>
        (case map_of (p_cmds st) l of None \<Rightarrow> False | Some cs \<Rightarrow> has_col_open cs))
        (concat (map snd (p_r2c st)))"
    using cols by (auto simp: list_all_iff intro: less_SucI)
  show ?thesis
  proof (cases "classify line")
    case (RowOpenMarker args)
    then obtain r where ro: "row_open line = Some (args, r)"
      by (auto simp: classify_RowOpenMarker)
    with assms(2) obtain styles where "parse_row_args_with bs args profile = Inr styles"
      by (auto simp: parse_line_with_def Let_def split: sum.splits)
    from parse_line_row_open [OF ro this, of st n] assms(2)
    have st': "st' = st\<lparr>row_stack := row_stack st @ [n],
             p_rows := AList.update n styles (p_rows st),
             p_r2c := AList.update n [n] (p_r2c st),
             p_cmds := AList.update n
               [GridCmdInfo_init ROW_OPEN, GridCmdInfo_init COL_OPEN] (p_cmds st)\<rparr>"
      by simp
    have r2c: "AList.update n [n] (p_r2c st) = p_r2c st @ [(n, [n])]"
      using fresh_r by (rule update_fresh)
    have rows: "AList.update n styles (p_rows st) = p_rows st @ [(n, styles)]"
      using fresh_rows by (rule update_fresh)
    have g: "list_all (\<lambda>r. map_of (p_r2c st @ [(n, [n])]) r \<noteq> None) (row_stack st @ [n])"
      using stack by (auto simp: list_all_iff)
    have a: "map fst (p_rows st @ [(n, styles)]) = map fst (p_r2c st @ [(n, [n])])"
      using keys by simp
    have b: "distinct (map fst (p_r2c st @ [(n, [n])]))"
      using dk fresh_r by simp
    have c: "list_all (\<lambda>k. k < Suc n) (map fst (p_r2c st @ [(n, [n])]))"
      using kr' by simp
    have e: "distinct (concat (map snd (p_r2c st @ [(n, [n])])))"
      using dc fresh_col by simp
    have f: "list_all (\<lambda>l. l < Suc n \<and>
        (case map_of (AList.update n [GridCmdInfo_init ROW_OPEN, GridCmdInfo_init COL_OPEN] (p_cmds st)) l
         of None \<Rightarrow> False | Some cs \<Rightarrow> has_col_open cs))
        (concat (map snd (p_r2c st @ [(n, [n])])))"
      using cols_upd [of "[GridCmdInfo_init ROW_OPEN, GridCmdInfo_init COL_OPEN]"]
      by (simp add: AList.update_conv' has_col_open_def GridCmdInfo_init_def)
    show ?thesis
      unfolding tables_inv_def st' r2c rows
      using a b c e f g scan_inv_keys [OF kc] by simp
  next
    case RowCloseMarker
    with assms(2) have ne: "row_stack st \<noteq> []"
      by (auto simp: parse_line_underflow)
    from parse_line_row_close [OF RowCloseMarker ne, of bs profile n] assms(2)
    have st': "st' = st\<lparr>p_cmds := AList.update n
               [GridCmdInfo_init COL_CLOSE, GridCmdInfo_init ROW_CLOSE] (p_cmds st),
             row_stack := butlast (row_stack st)\<rparr>"
      by simp
    have "list_all (\<lambda>r. map_of (p_r2c st) r \<noteq> None) (butlast (row_stack st))"
      using stack by (auto simp: list_all_iff dest: in_set_butlastD)
    then show ?thesis
      unfolding tables_inv_def st'
      using keys dk kr' dc scan_inv_keys [OF kc]
        cols_upd [of "[GridCmdInfo_init COL_CLOSE, GridCmdInfo_init ROW_CLOSE]"]
      by simp
  next
    case ColSeparatorMarker
    with assms(2) have ne: "row_stack st \<noteq> []"
      by (auto simp: parse_line_underflow)
    with assms(2) ColSeparatorMarker obtain cols0 where
      top: "map_of (p_r2c st) (last (row_stack st)) = Some cols0"
      by (auto simp: parse_line_with_def classify_ColSeparatorMarker split: option.splits)
    let ?top = "last (row_stack st)"
    from parse_line_col_sep [OF ColSeparatorMarker ne top, of bs profile n] assms(2)
    have st': "st' = st\<lparr>p_r2c := AList.update ?top (cols0 @ [n]) (p_r2c st),
             p_cmds := AList.update n
               [GridCmdInfo_init COL_CLOSE, GridCmdInfo_init COL_OPEN] (p_cmds st)\<rparr>"
      by simp
    from update_split [OF top, of "cols0 @ [n]"] obtain pre post where
      al: "p_r2c st = pre @ (?top, cols0) # post"
      and al': "AList.update ?top (cols0 @ [n]) (p_r2c st) = pre @ (?top, cols0 @ [n]) # post"
      by blast
    have k': "map fst (AList.update ?top (cols0 @ [n]) (p_r2c st)) = map fst (p_r2c st)"
      using al al' by simp
    have cc: "concat (map snd (p_r2c st)) = concat (map snd pre) @ cols0 @ concat (map snd post)"
      using al by simp
    have cc': "concat (map snd (AList.update ?top (cols0 @ [n]) (p_r2c st))) =
        concat (map snd pre) @ cols0 @ [n] @ concat (map snd post)"
      using al' by simp
    have d': "distinct (concat (map snd (AList.update ?top (cols0 @ [n]) (p_r2c st))))"
      using dc fresh_col unfolding cc cc' by auto
    have old: "list_all (\<lambda>l. l < Suc n \<and>
        (case map_of (AList.update n [GridCmdInfo_init COL_CLOSE, GridCmdInfo_init COL_OPEN] (p_cmds st)) l
         of None \<Rightarrow> False | Some cs \<Rightarrow> has_col_open cs)) (concat (map snd (p_r2c st)))"
      by (rule cols_upd)
    have new: "n < Suc n \<and>
        (case map_of (AList.update n [GridCmdInfo_init COL_CLOSE, GridCmdInfo_init COL_OPEN] (p_cmds st)) n
         of None \<Rightarrow> False | Some cs \<Rightarrow> has_col_open cs)"
      by (simp add: AList.update_conv' has_col_open_def GridCmdInfo_init_def)
    have c': "list_all (\<lambda>l. l < Suc n \<and>
        (case map_of (AList.update n [GridCmdInfo_init COL_CLOSE, GridCmdInfo_init COL_OPEN] (p_cmds st)) l
         of None \<Rightarrow> False | Some cs \<Rightarrow> has_col_open cs))
        (concat (map snd (AList.update ?top (cols0 @ [n]) (p_r2c st))))"
      using old new unfolding cc cc' by simp
    have s': "list_all (\<lambda>r. map_of (AList.update ?top (cols0 @ [n]) (p_r2c st)) r \<noteq> None) (row_stack st)"
      using stack by (auto simp: list_all_iff AList.update_conv')
    show ?thesis
      unfolding tables_inv_def st'
      using keys dk kr' scan_inv_keys [OF kc] d' c' s'
      by (simp add: k')
  next
    case NotAMarker
    with assms(2) have "st' = st"
      by (simp add: parse_line_not_a_marker)
    then show ?thesis
      unfolding tables_inv_def
      using keys dk kr' kc' dc cols' stack by simp
  qed
qed

lemma tables_inv_loop:
  "tables_inv n st \<Longrightarrow> parse_loop bs profile n ls st = Inr st' \<Longrightarrow>
   tables_inv (n + length ls) st'"
proof (induction ls arbitrary: n st)
  case Nil
  then show ?case by simp
next
  case (Cons line ls)
  from Cons.prems(2) obtain st1 where
    step: "parse_line_with bs profile st n line = Inr st1"
    and rest: "parse_loop bs profile (Suc n) ls st1 = Inr st'"
    by (auto split: sum.splits)
  from Cons.IH [OF tables_inv_step [OF Cons.prems(1) step] rest] show ?case by simp
qed

lemma parse_markers_with_tables:
  assumes "parse_markers_with bs lines profile = Inr (rows, cmds, r2c)"
  shows "(\<forall>r \<in> set (map fst rows). map_of rows r \<noteq> None \<and> map_of r2c r \<noteq> None) \<and>
    distinct (all_cols r2c (map fst rows)) \<and>
    (\<forall>l \<in> set (all_cols r2c (map fst rows)). \<exists>cs. map_of cmds l = Some cs \<and> has_col_open cs)"
proof -
  from assms obtain st where
    loop: "parse_loop bs profile 0 lines init_state = Inr st"
    and fin: "close_open_rows (p_cmds st) (row_stack st) = Inr cmds"
    and rows: "rows = p_rows st" and r2c: "r2c = p_r2c st"
    by (auto simp: parse_markers_with_def split: sum.splits)
  from fin have cmds: "cmds = p_cmds st"
    by (simp add: close_open_rows_Inr)
  from tables_inv_loop [OF tables_inv_init loop]
  have keys: "map fst rows = map fst r2c"
    and dk: "distinct (map fst r2c)"
    and dc: "distinct (concat (map snd r2c))"
    and cols: "list_all (\<lambda>l. l < 0 + length lines \<and>
        (case map_of cmds l of None \<Rightarrow> False | Some cs \<Rightarrow> has_col_open cs))
        (concat (map snd r2c))"
    unfolding rows r2c cmds by (simp_all only: tables_inv_def)
  have all: "all_cols r2c (map fst rows) = concat (map snd r2c)"
    unfolding keys using dk by (rule all_cols_keys)
  have 1: "\<forall>r \<in> set (map fst rows). map_of rows r \<noteq> None \<and> map_of r2c r \<noteq> None"
  proof
    fix r assume r: "r \<in> set (map fst rows)"
    then have "map_of rows r \<noteq> None"
      by (simp add: map_of_eq_None_iff)
    moreover from r keys have "r \<in> set (map fst r2c)" by simp
    then have "map_of r2c r \<noteq> None"
      by (simp add: map_of_eq_None_iff)
    ultimately show "map_of rows r \<noteq> None \<and> map_of r2c r \<noteq> None" ..
  qed
  have 3: "\<forall>l \<in> set (all_cols r2c (map fst rows)). \<exists>cs. map_of cmds l = Some cs \<and> has_col_open cs"
    unfolding all
  proof
    fix l assume "l \<in> set (concat (map snd r2c))"
    with cols have "case map_of cmds l of None \<Rightarrow> False | Some cs \<Rightarrow> has_col_open cs"
      unfolding list_all_iff by blast
    then show "\<exists>cs. map_of cmds l = Some cs \<and> has_col_open cs"
      by (cases "map_of cmds l") simp_all
  qed
  from 1 dc 3 show ?thesis
    unfolding all by blast
qed

section \<open>Stack underflow\<close>

text \<open>
  C10. When the scan reaches a row-close or a column-separator line with the stack empty
  (the scan of the lines before it returns the state \<open>st\<close>, and \<open>row_stack st\<close> is empty),
  \<open>parse_markers\<close> raises \<open>IndexError\<close>, and so does \<open>run\<close>: the line is neither
  ignored nor recovered from.
\<close>

theorem underflow_raises:
  assumes "i < length lines"
    and "classify (lines ! i) = RowCloseMarker \<or> classify (lines ! i) = ColSeparatorMarker"
    and "parse_loop bs profile 0 (take i lines) init_state = Inr st"
    and "row_stack st = []"
  shows "parse_markers_with bs lines profile = Inl IndexError \<and>
    (get_conf config ''name'' = profile \<longrightarrow> run_with bs config lines = Inl IndexError)"
proof -
  have split: "lines = take i lines @ lines ! i # drop (Suc i) lines"
    using assms(1) by (rule id_take_nth_drop)
  have len: "length (take i lines) = i"
    using assms(1) by simp
  have "parse_loop bs profile 0 lines init_state =
        parse_loop bs profile 0 (take i lines @ lines ! i # drop (Suc i) lines) init_state"
    using split by simp
  also have "\<dots> = parse_loop bs profile i (lines ! i # drop (Suc i) lines) st"
    by (simp only: parse_loop_append assms(3) len) simp
  also have "\<dots> = Inl IndexError"
    using parse_line_underflow [OF assms(2) assms(4)] by simp
  finally have "parse_markers_with bs lines profile = Inl IndexError"
    by (simp add: parse_markers_with_def)
  then show ?thesis
    by (simp add: run_with_def)
qed

theorem underflow_raises_witness:
  "parse_markers [''Some text'', ''--end--'', ''a -- b''] PyNone = Inl IndexError \<and>
   run [] [''Some text'', '' -- ''] = Inl IndexError"
proof -
  have scan: "parse_loop GridConf_BOOTSTRAP_name PyNone 0 [''Some text''] init_state =
      Inr init_state"
    by (rule parse_loop_no_markers) (simp add: classify_examples)
  have empty: "row_stack init_state = []"
    by (simp add: init_state_def)
  have conf: "get_conf [] ''name'' = PyNone"
    by (simp add: get_conf_def)
  have i1: "1 < length [''Some text'', ''--end--'', ''a -- b'']"
    and m1: "classify ([''Some text'', ''--end--'', ''a -- b''] ! 1) = RowCloseMarker \<or>
      classify ([''Some text'', ''--end--'', ''a -- b''] ! 1) = ColSeparatorMarker"
    and s1: "parse_loop GridConf_BOOTSTRAP_name PyNone 0
      (take 1 [''Some text'', ''--end--'', ''a -- b'']) init_state = Inr init_state"
    by (simp_all add: classify_examples scan del: parse_loop.simps)
  have i2: "1 < length [''Some text'', '' -- '']"
    and m2: "classify ([''Some text'', '' -- ''] ! 1) = RowCloseMarker \<or>
      classify ([''Some text'', '' -- ''] ! 1) = ColSeparatorMarker"
    and s2: "parse_loop GridConf_BOOTSTRAP_name PyNone 0
      (take 1 [''Some text'', '' -- '']) init_state = Inr init_state"
    by (simp_all add: classify_examples scan del: parse_loop.simps)
  show ?thesis
    using underflow_raises [OF i1 m1 s1 empty, of "[]"] underflow_raises [OF i2 m2 s2 empty, of "[]"]
    by (simp add: conf parse_markers_def run_def)
qed

section \<open>The style propagator\<close>

lemma set_col_style_has: "has_col_open cs \<Longrightarrow> \<exists>cs'. set_col_style v cs = Some cs'"
  by (induction cs) (auto simp: has_col_open_def)

lemma set_col_style_split:
  "set_col_style v cs = Some cs' \<longleftrightarrow>
     (\<exists>pre c post. cs = pre @ c # post \<and> list_all (\<lambda>c. cmdtype c \<noteq> COL_OPEN) pre \<and>
        cmdtype c = COL_OPEN \<and> cs' = pre @ c\<lparr>style := Some v\<rparr> # post)"
proof (induction cs arbitrary: cs')
  case Nil
  then show ?case by simp
next
  case (Cons a cs)
  show ?case
  proof (cases "cmdtype a = COL_OPEN")
    case True
    show ?thesis
    proof
      assume "set_col_style v (a # cs) = Some cs'"
      with True have "cs' = a\<lparr>style := Some v\<rparr> # cs" by simp
      with True show "\<exists>pre c post. a # cs = pre @ c # post \<and> list_all (\<lambda>c. cmdtype c \<noteq> COL_OPEN) pre \<and>
        cmdtype c = COL_OPEN \<and> cs' = pre @ c\<lparr>style := Some v\<rparr> # post"
        by (intro exI [of _ "[]"] exI [of _ a] exI [of _ cs]) simp
    next
      assume "\<exists>pre c post. a # cs = pre @ c # post \<and> list_all (\<lambda>c. cmdtype c \<noteq> COL_OPEN) pre \<and>
        cmdtype c = COL_OPEN \<and> cs' = pre @ c\<lparr>style := Some v\<rparr> # post"
      then obtain pre c post where *: "a # cs = pre @ c # post" "list_all (\<lambda>c. cmdtype c \<noteq> COL_OPEN) pre"
        "cmdtype c = COL_OPEN" "cs' = pre @ c\<lparr>style := Some v\<rparr> # post" by blast
      with True have "pre = []" by (cases pre) auto
      with * True show "set_col_style v (a # cs) = Some cs'" by simp
    qed
  next
    case False
    show ?thesis
    proof
      assume "set_col_style v (a # cs) = Some cs'"
      with False obtain cs1 where cs1: "set_col_style v cs = Some cs1" "cs' = a # cs1" by auto
      with Cons.IH [of cs1] obtain pre c post where *: "cs = pre @ c # post" "list_all (\<lambda>c. cmdtype c \<noteq> COL_OPEN) pre"
        "cmdtype c = COL_OPEN" "cs1 = pre @ c\<lparr>style := Some v\<rparr> # post" by blast
      with False cs1 show "\<exists>pre c post. a # cs = pre @ c # post \<and> list_all (\<lambda>c. cmdtype c \<noteq> COL_OPEN) pre \<and>
        cmdtype c = COL_OPEN \<and> cs' = pre @ c\<lparr>style := Some v\<rparr> # post"
        by (intro exI [of _ "a # pre"] exI [of _ c] exI [of _ post]) simp
    next
      assume "\<exists>pre c post. a # cs = pre @ c # post \<and> list_all (\<lambda>c. cmdtype c \<noteq> COL_OPEN) pre \<and>
        cmdtype c = COL_OPEN \<and> cs' = pre @ c\<lparr>style := Some v\<rparr> # post"
      then obtain pre c post where *: "a # cs = pre @ c # post" "list_all (\<lambda>c. cmdtype c \<noteq> COL_OPEN) pre"
        "cmdtype c = COL_OPEN" "cs' = pre @ c\<lparr>style := Some v\<rparr> # post" by blast
      with False obtain pre' where pre: "pre = a # pre'" by (cases pre) auto
      with * have "cs = pre' @ c # post" "list_all (\<lambda>c. cmdtype c \<noteq> COL_OPEN) pre'" by auto
      with * Cons.IH [of "pre' @ c\<lparr>style := Some v\<rparr> # post"]
      have "set_col_style v cs = Some (pre' @ c\<lparr>style := Some v\<rparr> # post)" by blast
      with False * pre show "set_col_style v (a # cs) = Some cs'" by simp
    qed
  qed
qed

lemma style_for_0: "(if rev ss = [] then d else PyStr (last (rev ss))) = style_for ss d 0"
  by (cases ss) (simp_all add: style_for_def)

lemma style_for_Suc: "style_for (tl ss) d i = style_for ss d (Suc i)"
  by (cases ss) (simp_all add: style_for_def)

lemma butlast_rev_tl: "butlast (rev ss) = rev (tl ss)"
  by (cases ss) simp_all

lemma populate_cols_step:
  assumes "map_of cmds col = Some cs" and "set_col_style (style_for ss d 0) cs = Some cs'"
  shows "populate_cols d (rev ss) (col # cols) cmds =
    populate_cols d (rev (tl ss)) cols (AList.update col cs' cmds)"
  using assms by (simp add: style_for_0 butlast_rev_tl del: rev_is_Nil_conv)

lemma update_keys_present:
  "map_of al k = Some v \<Longrightarrow> map fst (AList.update k v' al) = map fst al"
  by (force simp: AList.update_keys dest: map_of_SomeD)

lemma populate_cols_ok:
  assumes "distinct cols"
    and "\<forall>l \<in> set cols. \<exists>cs. map_of cmds l = Some cs \<and> has_col_open cs"
  shows "\<exists>cmds'. populate_cols d (rev ss) cols cmds = Inr cmds' \<and>
    map fst cmds' = map fst cmds \<and>
    (\<forall>l. l \<notin> set cols \<longrightarrow> map_of cmds' l = map_of cmds l) \<and>
    (\<forall>i < length cols. \<exists>cs cs'. map_of cmds (cols ! i) = Some cs \<and>
       set_col_style (style_for ss d i) cs = Some cs' \<and> map_of cmds' (cols ! i) = Some cs')"
  using assms
proof (induction cols arbitrary: ss cmds)
  case Nil
  then show ?case by simp
next
  case (Cons col cols)
  from Cons.prems obtain cs where cs: "map_of cmds col = Some cs" and has: "has_col_open cs"
    by auto
  from set_col_style_has [OF has] obtain cs' where
    cs': "set_col_style (style_for ss d 0) cs = Some cs'" by blast
  let ?cmds = "AList.update col cs' cmds"
  have notin: "col \<notin> set cols" and dist: "distinct cols"
    using Cons.prems(1) by simp_all
  have same: "map_of ?cmds l = map_of cmds l" if "l \<noteq> col" for l
    using that by (simp add: AList.update_conv')
  have "\<forall>l \<in> set cols. \<exists>cs. map_of ?cmds l = Some cs \<and> has_col_open cs"
  proof
    fix l assume l: "l \<in> set cols"
    with notin have "l \<noteq> col" by auto
    with same have "map_of ?cmds l = map_of cmds l" by simp
    with Cons.prems(2) l show "\<exists>cs. map_of ?cmds l = Some cs \<and> has_col_open cs" by simp
  qed
  from Cons.IH [OF dist this, of "tl ss"] obtain cmds' where
    run: "populate_cols d (rev (tl ss)) cols ?cmds = Inr cmds'"
    and keys: "map fst cmds' = map fst ?cmds"
    and frame: "\<forall>l. l \<notin> set cols \<longrightarrow> map_of cmds' l = map_of ?cmds l"
    and each: "\<forall>i < length cols. \<exists>cs cs'. map_of ?cmds (cols ! i) = Some cs \<and>
       set_col_style (style_for (tl ss) d i) cs = Some cs' \<and> map_of cmds' (cols ! i) = Some cs'"
    by blast
  have 1: "populate_cols d (rev ss) (col # cols) cmds = Inr cmds'"
    using populate_cols_step [OF cs cs'] run by simp
  have 2: "map fst cmds' = map fst cmds"
    using keys update_keys_present [OF cs] by simp
  have 3: "\<forall>l. l \<notin> set (col # cols) \<longrightarrow> map_of cmds' l = map_of cmds l"
    using frame same by simp
  have 4: "\<forall>i < length (col # cols). \<exists>cs cs'. map_of cmds ((col # cols) ! i) = Some cs \<and>
       set_col_style (style_for ss d i) cs = Some cs' \<and> map_of cmds' ((col # cols) ! i) = Some cs'"
  proof (intro allI impI)
    fix i assume i: "i < length (col # cols)"
    show "\<exists>cs cs'. map_of cmds ((col # cols) ! i) = Some cs \<and>
       set_col_style (style_for ss d i) cs = Some cs' \<and> map_of cmds' ((col # cols) ! i) = Some cs'"
    proof (cases i)
      case 0
      have "map_of cmds' col = Some cs'"
        using frame notin by (simp add: AList.update_conv')
      with 0 cs cs' show ?thesis by simp
    next
      case (Suc j)
      with i have j: "j < length cols" by simp
      with each obtain cs1 cs1' where *: "map_of ?cmds (cols ! j) = Some cs1"
        "set_col_style (style_for (tl ss) d j) cs1 = Some cs1'" "map_of cmds' (cols ! j) = Some cs1'"
        by blast
      have "cols ! j \<noteq> col" using j notin by (metis nth_mem)
      with * same have "map_of cmds (cols ! j) = Some cs1" by simp
      with * Suc show ?thesis by (simp add: style_for_Suc)
    qed
  qed
  from 1 2 3 4 show ?case by blast
qed


lemma populate_rows_step:
  assumes "map_of rows r = Some ss" and "map_of r2c r = Some cols"
    and "populate_cols d (rev ss) cols cmds = Inr cmds1"
  shows "populate_rows d (r # ks) rows r2c cmds = populate_rows d ks rows r2c cmds1"
  using assms by simp

lemma populate_rows_ok:
  assumes "\<forall>r \<in> set ks. map_of rows r \<noteq> None \<and> map_of r2c r \<noteq> None"
    and "distinct (all_cols r2c ks)"
    and "\<forall>l \<in> set (all_cols r2c ks). \<exists>cs. map_of cmds l = Some cs \<and> has_col_open cs"
  shows "\<exists>cmds'. populate_rows d ks rows r2c cmds = Inr cmds' \<and>
    map fst cmds' = map fst cmds \<and>
    (\<forall>l. l \<notin> set (all_cols r2c ks) \<longrightarrow> map_of cmds' l = map_of cmds l) \<and>
    (\<forall>r \<in> set ks. \<forall>ss cols i.
       map_of rows r = Some ss \<and> map_of r2c r = Some cols \<and> i < length cols \<longrightarrow>
       (\<exists>cs cs'. map_of cmds (cols ! i) = Some cs \<and>
          set_col_style (style_for ss d i) cs = Some cs' \<and> map_of cmds' (cols ! i) = Some cs'))"
  using assms
proof (induction ks arbitrary: cmds)
  case Nil
  then show ?case by (simp add: all_cols_def)
next
  case (Cons r ks)
  from Cons.prems(1) obtain ss cols where ss: "map_of rows r = Some ss"
    and cols: "map_of r2c r = Some cols"
    by auto
  have all: "all_cols r2c (r # ks) = cols @ all_cols r2c ks"
    using cols by (simp add: all_cols_def cols_of_def)
  from Cons.prems(2) have dcols: "distinct cols" and drest: "distinct (all_cols r2c ks)"
    and disj: "set cols \<inter> set (all_cols r2c ks) = {}"
    by (simp_all add: all)
  have "\<forall>l \<in> set cols. \<exists>cs. map_of cmds l = Some cs \<and> has_col_open cs"
    using Cons.prems(3) by (simp add: all)
  from populate_cols_ok [OF dcols this, of d ss] obtain cmds1 where
    run1: "populate_cols d (rev ss) cols cmds = Inr cmds1"
    and keys1: "map fst cmds1 = map fst cmds"
    and frame1: "\<forall>l. l \<notin> set cols \<longrightarrow> map_of cmds1 l = map_of cmds l"
    and each1: "\<forall>i < length cols. \<exists>cs cs'. map_of cmds (cols ! i) = Some cs \<and>
       set_col_style (style_for ss d i) cs = Some cs' \<and> map_of cmds1 (cols ! i) = Some cs'"
    by blast
  have same: "map_of cmds1 l = map_of cmds l" if "l \<in> set (all_cols r2c ks)" for l
    using that disj frame1 by auto
  have p1: "\<forall>r \<in> set ks. map_of rows r \<noteq> None \<and> map_of r2c r \<noteq> None"
    using Cons.prems(1) by simp
  have p3: "\<forall>l \<in> set (all_cols r2c ks). \<exists>cs. map_of cmds1 l = Some cs \<and> has_col_open cs"
  proof
    fix l assume l: "l \<in> set (all_cols r2c ks)"
    with Cons.prems(3) have "\<exists>cs. map_of cmds l = Some cs \<and> has_col_open cs"
      by (simp add: all)
    with same [OF l] show "\<exists>cs. map_of cmds1 l = Some cs \<and> has_col_open cs" by simp
  qed
  from Cons.IH [OF p1 drest p3] obtain cmds' where
    run: "populate_rows d ks rows r2c cmds1 = Inr cmds'"
    and keys: "map fst cmds' = map fst cmds1"
    and frame: "\<forall>l. l \<notin> set (all_cols r2c ks) \<longrightarrow> map_of cmds' l = map_of cmds1 l"
    and each: "\<forall>r \<in> set ks. \<forall>ss cols i.
       map_of rows r = Some ss \<and> map_of r2c r = Some cols \<and> i < length cols \<longrightarrow>
       (\<exists>cs cs'. map_of cmds1 (cols ! i) = Some cs \<and>
          set_col_style (style_for ss d i) cs = Some cs' \<and> map_of cmds' (cols ! i) = Some cs')"
    by blast
  have 1: "populate_rows d (r # ks) rows r2c cmds = Inr cmds'"
    using populate_rows_step [OF ss cols run1] run by simp
  have 2: "map fst cmds' = map fst cmds"
    using keys keys1 by simp
  have 3: "\<forall>l. l \<notin> set (all_cols r2c (r # ks)) \<longrightarrow> map_of cmds' l = map_of cmds l"
    using frame frame1 by (simp add: all)
  have head: "\<exists>cs cs'. map_of cmds (cols ! i) = Some cs \<and>
      set_col_style (style_for ss d i) cs = Some cs' \<and> map_of cmds' (cols ! i) = Some cs'"
    if i: "i < length cols" for i
  proof -
    from each1 i obtain cs cs' where *: "map_of cmds (cols ! i) = Some cs"
      "set_col_style (style_for ss d i) cs = Some cs'" "map_of cmds1 (cols ! i) = Some cs'"
      by blast
    have "cols ! i \<in> set cols" using i by simp
    with disj have "cols ! i \<notin> set (all_cols r2c ks)" by auto
    with frame * have "map_of cmds' (cols ! i) = Some cs'" by simp
    with * show ?thesis by blast
  qed
  have tail: "\<exists>cs cs'. map_of cmds (cols' ! i) = Some cs \<and>
      set_col_style (style_for ss' d i) cs = Some cs' \<and> map_of cmds' (cols' ! i) = Some cs'"
    if r': "r' \<in> set ks" and ss': "map_of rows r' = Some ss'"
      and cols': "map_of r2c r' = Some cols'" and i: "i < length cols'" for r' ss' cols' i
  proof -
    from each r' ss' cols' i obtain cs cs' where *: "map_of cmds1 (cols' ! i) = Some cs"
      "set_col_style (style_for ss' d i) cs = Some cs'" "map_of cmds' (cols' ! i) = Some cs'"
      by blast
    have "set cols' \<subseteq> set (all_cols r2c ks)"
      using r' cols' by (auto simp: all_cols_def cols_of_def)
    with i have "cols' ! i \<in> set (all_cols r2c ks)" by auto
    from same [OF this] * have "map_of cmds (cols' ! i) = Some cs" by simp
    with * show ?thesis by blast
  qed
  have 4: "\<forall>r' \<in> set (r # ks). \<forall>ss' cols' i.
       map_of rows r' = Some ss' \<and> map_of r2c r' = Some cols' \<and> i < length cols' \<longrightarrow>
       (\<exists>cs cs'. map_of cmds (cols' ! i) = Some cs \<and>
          set_col_style (style_for ss' d i) cs = Some cs' \<and> map_of cmds' (cols' ! i) = Some cs')"
  proof (intro ballI allI impI)
    fix r' ss' cols' i
    assume r': "r' \<in> set (r # ks)"
      and h: "map_of rows r' = Some ss' \<and> map_of r2c r' = Some cols' \<and> i < length cols'"
    show "\<exists>cs cs'. map_of cmds (cols' ! i) = Some cs \<and>
          set_col_style (style_for ss' d i) cs = Some cs' \<and> map_of cmds' (cols' ! i) = Some cs'"
    proof (cases "r' = r")
      case True
      with h ss cols have "ss' = ss" "cols' = cols" by simp_all
      with head h show ?thesis by simp
    next
      case False
      with r' have "r' \<in> set ks" by simp
      with tail h show ?thesis by blast
    qed
  qed
  from 1 2 3 4 show ?case by blast
qed

text \<open>
  C5. Let every row of \<open>rows\<close> have its column lines in \<open>r2c\<close>, let no line be a column
  line twice, and let the command list of every column line hold a \<open>COL_OPEN\<close>
  command. Then \<open>populate_cmd_params\<close> returns, and in its result the first \<open>COL_OPEN\<close>
  command of column \<open>i\<close> of a row has the row's \<open>i\<close>-th declared style when there is
  one (the first declared style on the first column, and so on), and the default style
  \<open>d\<close> otherwise; the command lists of all other lines are as they were, so that a
  declared style behind the last column is used nowhere.
\<close>

theorem populate_cmd_params_styles:
  assumes "\<forall>r \<in> set (map fst rows). map_of r2c r \<noteq> None"
    and "distinct (all_cols r2c (map fst rows))"
    and "\<forall>l \<in> set (all_cols r2c (map fst rows)). \<exists>cs. map_of cmds l = Some cs \<and> has_col_open cs"
  shows "\<exists>cmds'. populate_cmd_params rows cmds r2c d = Inr cmds' \<and>
    map fst cmds' = map fst cmds \<and>
    (\<forall>l. l \<notin> set (all_cols r2c (map fst rows)) \<longrightarrow> map_of cmds' l = map_of cmds l) \<and>
    (\<forall>r ss cols i.
       map_of rows r = Some ss \<and> map_of r2c r = Some cols \<and> i < length cols \<longrightarrow>
       (\<exists>cs cs'. map_of cmds (cols ! i) = Some cs \<and>
          set_col_style (if i < length ss then PyStr (ss ! i) else d) cs = Some cs' \<and>
          map_of cmds' (cols ! i) = Some cs'))"
proof -
  have keys: "r \<in> set (map fst rows)" if "map_of rows r = Some ss" for r ss
    using that by (force dest: map_of_SomeD)
  have "\<forall>r \<in> set (map fst rows). map_of rows r \<noteq> None \<and> map_of r2c r \<noteq> None"
    using assms(1) by (simp add: map_of_eq_None_iff)
  from populate_rows_ok [OF this assms(2) assms(3), of d] obtain cmds' where
    run: "populate_rows d (map fst rows) rows r2c cmds = Inr cmds'"
    and k: "map fst cmds' = map fst cmds"
    and frame: "\<forall>l. l \<notin> set (all_cols r2c (map fst rows)) \<longrightarrow> map_of cmds' l = map_of cmds l"
    and each: "\<forall>r \<in> set (map fst rows). \<forall>ss cols i.
       map_of rows r = Some ss \<and> map_of r2c r = Some cols \<and> i < length cols \<longrightarrow>
       (\<exists>cs cs'. map_of cmds (cols ! i) = Some cs \<and>
          set_col_style (style_for ss d i) cs = Some cs' \<and> map_of cmds' (cols ! i) = Some cs')"
    by blast
  have "\<forall>r ss cols i.
       map_of rows r = Some ss \<and> map_of r2c r = Some cols \<and> i < length cols \<longrightarrow>
       (\<exists>cs cs'. map_of cmds (cols ! i) = Some cs \<and>
          set_col_style (if i < length ss then PyStr (ss ! i) else d) cs = Some cs' \<and>
          map_of cmds' (cols ! i) = Some cs')"
    using each keys unfolding style_for_def by blast
  with run k frame show ?thesis
    unfolding populate_cmd_params_def by blast
qed

theorem populate_cmd_params_styles_witness:
  "populate_cmd_params
     [(0, [''span4'', ''span6''])]
     [(0, [\<lparr>cmdtype = ROW_OPEN, style = None\<rparr>, \<lparr>cmdtype = COL_OPEN, style = None\<rparr>]),
      (2, [\<lparr>cmdtype = COL_CLOSE, style = None\<rparr>, \<lparr>cmdtype = COL_OPEN, style = None\<rparr>]),
      (4, [\<lparr>cmdtype = COL_CLOSE, style = None\<rparr>, \<lparr>cmdtype = COL_OPEN, style = None\<rparr>]),
      (5, [\<lparr>cmdtype = COL_CLOSE, style = None\<rparr>, \<lparr>cmdtype = ROW_CLOSE, style = None\<rparr>])]
     [(0, [0, 2, 4])]
     (PyStr ''span1'') =
   Inr
     [(0, [\<lparr>cmdtype = ROW_OPEN, style = None\<rparr>,
           \<lparr>cmdtype = COL_OPEN, style = Some (PyStr ''span4'')\<rparr>]),
      (2, [\<lparr>cmdtype = COL_CLOSE, style = None\<rparr>,
           \<lparr>cmdtype = COL_OPEN, style = Some (PyStr ''span6'')\<rparr>]),
      (4, [\<lparr>cmdtype = COL_CLOSE, style = None\<rparr>,
           \<lparr>cmdtype = COL_OPEN, style = Some (PyStr ''span1'')\<rparr>]),
      (5, [\<lparr>cmdtype = COL_CLOSE, style = None\<rparr>, \<lparr>cmdtype = ROW_CLOSE, style = None\<rparr>])]"
  (is "populate_cmd_params ?rows ?cmds ?r2c ?d = Inr ?res")
proof -
  have h1: "\<forall>r \<in> set (map fst ?rows). map_of ?r2c r \<noteq> None"
    by simp
  have h2: "distinct (all_cols ?r2c (map fst ?rows))"
    by (simp add: all_cols_def cols_of_def)
  have h3: "\<forall>l \<in> set (all_cols ?r2c (map fst ?rows)).
      \<exists>cs. map_of ?cmds l = Some cs \<and> has_col_open cs"
    by (simp add: all_cols_def cols_of_def has_col_open_def GridCmd_defs)
  have ev: "populate_cmd_params ?rows ?cmds ?r2c ?d = Inr ?res"
    by (simp add: populate_cmd_params_def GridCmd_defs)
  show ?thesis
    using populate_cmd_params_styles [OF h1 h2 h3, of ?d] by (simp only: ev)
qed

section \<open>The marker rewriter\<close>

lemma cmd_str_known: "known_cmdtype (cmdtype c) \<Longrightarrow> \<exists>s. cmd_str c = Inr s"
  by (auto simp: known_cmdtype_def cmd_str_def get_name_def Let_def)

lemma str_all_known: "list_all (\<lambda>c. known_cmdtype (cmdtype c)) cs \<Longrightarrow> \<exists>ss. str_all cs = Inr ss"
proof (induction cs)
  case Nil
  then show ?case by simp
next
  case (Cons c cs)
  then obtain s ss where "cmd_str c = Inr s" and "str_all cs = Inr ss"
    using cmd_str_known [of c] by auto
  then show ?case by simp
qed

lemma line_tag_known: "list_all (\<lambda>c. known_cmdtype (cmdtype c)) cs \<Longrightarrow> \<exists>t. line_tag cs = Inr t"
  using str_all_known [of cs] by (auto simp: line_tag_def)

lemma replace_loop_step:
  "map_of cmds k = Some cs \<Longrightarrow> line_tag cs = Inr t \<Longrightarrow> k < length lines \<Longrightarrow>
   replace_loop (k # ks) cmds lines = replace_loop ks cmds (lines[k := t])"
  by (auto simp: line_tag_def split: sum.splits)

lemma replace_loop_ok:
  assumes "\<forall>k \<in> set ks. k < length lines \<and> (\<exists>cs t. map_of cmds k = Some cs \<and> line_tag cs = Inr t)"
  shows "\<exists>out. replace_loop ks cmds lines = Inr out \<and> length out = length lines \<and>
    (\<forall>i < length lines.
       if i \<in> set ks then (\<exists>cs. map_of cmds i = Some cs \<and> line_tag cs = Inr (out ! i))
       else out ! i = lines ! i)"
  using assms
proof (induction ks arbitrary: lines)
  case Nil
  then show ?case by simp
next
  case (Cons k ks)
  from Cons.prems obtain cs t where k: "k < length lines"
    and cs: "map_of cmds k = Some cs" and t: "line_tag cs = Inr t"
    by auto
  let ?lines = "lines[k := t]"
  have "\<forall>k \<in> set ks. k < length ?lines \<and> (\<exists>cs t. map_of cmds k = Some cs \<and> line_tag cs = Inr t)"
    using Cons.prems by simp
  from Cons.IH [OF this] obtain out where
    out: "replace_loop ks cmds ?lines = Inr out" and len: "length out = length lines"
    and each: "\<forall>i < length lines.
       if i \<in> set ks then (\<exists>cs. map_of cmds i = Some cs \<and> line_tag cs = Inr (out ! i))
       else out ! i = ?lines ! i"
    by auto
  have "replace_loop (k # ks) cmds lines = Inr out"
    using replace_loop_step [OF cs t k] out by simp
  moreover have "\<forall>i < length lines.
       if i \<in> set (k # ks) then (\<exists>cs. map_of cmds i = Some cs \<and> line_tag cs = Inr (out ! i))
       else out ! i = lines ! i"
  proof (intro allI impI)
    fix i assume i: "i < length lines"
    show "if i \<in> set (k # ks) then (\<exists>cs. map_of cmds i = Some cs \<and> line_tag cs = Inr (out ! i))
       else out ! i = lines ! i"
    proof (cases "i \<in> set ks")
      case True
      with each i show ?thesis by simp
    next
      case False
      with each i have eq: "out ! i = ?lines ! i" by simp
      show ?thesis
      proof (cases "i = k")
        case True
        with eq k cs t False show ?thesis by simp
      next
        case False
        with eq \<open>i \<notin> set ks\<close> show ?thesis by simp
      qed
    qed
  qed
  ultimately show ?case using len by blast
qed

text \<open>
  C6. Let every key of \<open>cmds\<close> be the number of a line of \<open>lines\<close>, and let every
  command be of one of the four types. Then \<open>replace_markers\<close> returns a list of the
  length of \<open>lines\<close>, in which each line whose number is a key is the tag of its
  commands and every other line is the line of the input.
\<close>

theorem replace_markers_frame:
  assumes "\<forall>k cs. map_of cmds k = Some cs \<longrightarrow>
      k < length lines \<and> list_all (\<lambda>c. known_cmdtype (cmdtype c)) cs"
  shows "\<exists>out. replace_markers lines cmds = Inr out \<and> length out = length lines \<and>
    (\<forall>i < length lines.
       case map_of cmds i of
         None \<Rightarrow> out ! i = lines ! i
       | Some cs \<Rightarrow> line_tag cs = Inr (out ! i))"
proof -
  have keys: "\<forall>k \<in> set (map fst cmds).
      k < length lines \<and> (\<exists>cs t. map_of cmds k = Some cs \<and> line_tag cs = Inr t)"
  proof
    fix k assume "k \<in> set (map fst cmds)"
    then obtain cs where cs: "map_of cmds k = Some cs"
      by (metis map_of_eq_None_iff not_Some_eq set_map)
    with assms have "k < length lines" and "list_all (\<lambda>c. known_cmdtype (cmdtype c)) cs"
      by auto
    with cs line_tag_known [of cs]
    show "k < length lines \<and> (\<exists>cs t. map_of cmds k = Some cs \<and> line_tag cs = Inr t)"
      by auto
  qed
  from replace_loop_ok [OF keys] obtain out where
    out: "replace_loop (map fst cmds) cmds lines = Inr out" and len: "length out = length lines"
    and each: "\<forall>i < length lines.
       if i \<in> set (map fst cmds)
       then (\<exists>cs. map_of cmds i = Some cs \<and> line_tag cs = Inr (out ! i))
       else out ! i = lines ! i"
    by auto
  have "\<forall>i < length lines.
       case map_of cmds i of
         None \<Rightarrow> out ! i = lines ! i
       | Some cs \<Rightarrow> line_tag cs = Inr (out ! i)"
  proof (intro allI impI)
    fix i assume "i < length lines"
    with each show "case map_of cmds i of
         None \<Rightarrow> out ! i = lines ! i
       | Some cs \<Rightarrow> line_tag cs = Inr (out ! i)"
      by (cases "map_of cmds i") (auto simp: map_of_eq_None_iff [symmetric] split: if_splits)
  qed
  with out len show ?thesis
    by (auto simp: replace_markers_def)
qed

theorem replace_markers_frame_witness:
  "replace_markers [''--row 4--'', ''Some text'', ''--end--'']
     [(0, [\<lparr>cmdtype = ROW_OPEN, style = None\<rparr>,
           \<lparr>cmdtype = COL_OPEN, style = Some (PyStr ''span4'')\<rparr>]),
      (2, [\<lparr>cmdtype = COL_CLOSE, style = None\<rparr>, \<lparr>cmdtype = ROW_CLOSE, style = None\<rparr>])] =
   Inr [newline # ''<!--grid:row;col(span4)-->'', ''Some text'',
        newline # ''<!--grid:endcol;endrow-->'']"
  (is "replace_markers ?lines ?cmds = Inr ?res")
proof -
  have h: "\<forall>k cs. map_of ?cmds k = Some cs \<longrightarrow>
      k < length ?lines \<and> list_all (\<lambda>c. known_cmdtype (cmdtype c)) cs"
    by (auto simp: known_cmdtype_def split: if_splits)
  have ev: "replace_markers ?lines ?cmds = Inr ?res"
    by (simp add: replace_markers_def cmd_str_def get_name_def grid_tag_def GridCmd_defs)
  show ?thesis
    using replace_markers_frame [OF h] by (simp only: ev)
qed

text \<open>Outside these conditions: a key that is no line number of the list makes
  \<open>replace_markers\<close> raise \<open>IndexError\<close>, a command of no known type \<open>Exception\<close>.\<close>

lemma replace_markers_out_of_range:
  "replace_markers [''Some text''] [(1, [])] = Inl IndexError"
  by (simp add: replace_markers_def)

lemma replace_markers_unknown_type:
  "replace_markers [''Some text''] [(0, [\<lparr>cmdtype = 7, style = None\<rparr>])] = Inl UnknownTagType"
  by (simp add: replace_markers_def cmd_str_def get_name_def GridCmd_defs)

section \<open>The whole run\<close>

lemma set_col_style_types: "set_col_style v cs = Some cs' \<Longrightarrow> map cmdtype cs' = map cmdtype cs"
  by (induction cs arbitrary: cs') (auto split: if_splits)

lemma all_cols_mem:
  "l \<in> set (all_cols r2c ks) \<Longrightarrow>
   \<exists>r \<in> set ks. \<exists>cols i. map_of r2c r = Some cols \<and> i < length cols \<and> cols ! i = l"
proof -
  assume "l \<in> set (all_cols r2c ks)"
  then obtain r where r: "r \<in> set ks" and l: "l \<in> set (cols_of r2c r)"
    by (auto simp: all_cols_def)
  from l obtain cols where cols: "map_of r2c r = Some cols" and "l \<in> set cols"
    by (cases "map_of r2c r") (simp_all add: cols_of_def)
  then obtain i where "i < length cols" "cols ! i = l"
    by (auto simp: in_set_conv_nth)
  with r cols show ?thesis by blast
qed

lemma prescribed_known:
  "prescribed line = Some cs \<Longrightarrow> list_all (\<lambda>c. known_cmdtype (cmdtype c)) cs"
  by (auto simp: prescribed_def known_cmdtype_def GridCmdInfo_init_def split: marker.splits)

lemma known_types_cong:
  "map cmdtype cs' = map cmdtype cs \<Longrightarrow> list_all (\<lambda>c. known_cmdtype (cmdtype c)) cs \<Longrightarrow>
   list_all (\<lambda>c. known_cmdtype (cmdtype c)) cs'"
proof -
  assume eq: "map cmdtype cs' = map cmdtype cs"
    and "list_all (\<lambda>c. known_cmdtype (cmdtype c)) cs"
  then have "list_all known_cmdtype (map cmdtype cs)"
    by (simp add: list_all_iff)
  with eq have "list_all known_cmdtype (map cmdtype cs')" by simp
  then show ?thesis by (simp add: list_all_iff)
qed

text \<open>
  When the scan returns, the whole of \<open>run\<close> returns: a list of the length of the
  document, in which the lines that are no markers are unchanged and every marker line
  is the tag of a command list with the command types prescribed for the marker.
\<close>

lemma run_with_returns:
  assumes "parse_markers_with bs lines (get_conf config ''name'') = Inr (rows, cmds, r2c)"
  shows "\<exists>out. run_with bs config lines = Inr out \<and> length out = length lines \<and>
    (\<forall>i < length lines.
       case prescribed (lines ! i) of
         None \<Rightarrow> out ! i = lines ! i
       | Some cs \<Rightarrow> (\<exists>cs'. map cmdtype cs' = map cmdtype cs \<and> line_tag cs' = Inr (out ! i)))"
proof -
  let ?d = "get_conf config ''default_col_style''"
  note seq = parse_markers_with_sequences [OF assms]
  from parse_markers_with_tables [OF assms]
  have h1: "\<forall>r \<in> set (map fst rows). map_of rows r \<noteq> None \<and> map_of r2c r \<noteq> None"
    and h2: "distinct (all_cols r2c (map fst rows))"
    and h3: "\<forall>l \<in> set (all_cols r2c (map fst rows)). \<exists>cs. map_of cmds l = Some cs \<and> has_col_open cs"
    by blast+
  from populate_rows_ok [OF h1 h2 h3, of ?d] obtain cmds' where
    pop: "populate_rows ?d (map fst rows) rows r2c cmds = Inr cmds'"
    and k: "map fst cmds' = map fst cmds"
    and frame: "\<forall>l. l \<notin> set (all_cols r2c (map fst rows)) \<longrightarrow> map_of cmds' l = map_of cmds l"
    and each: "\<forall>r \<in> set (map fst rows). \<forall>ss cols i.
       map_of rows r = Some ss \<and> map_of r2c r = Some cols \<and> i < length cols \<longrightarrow>
       (\<exists>cs cs'. map_of cmds (cols ! i) = Some cs \<and>
          set_col_style (style_for ss ?d i) cs = Some cs' \<and> map_of cmds' (cols ! i) = Some cs')"
    by blast
  have types: "\<exists>cs. map_of cmds l = Some cs \<and> map cmdtype cs' = map cmdtype cs"
    if l: "map_of cmds' l = Some cs'" for l cs'
  proof (cases "l \<in> set (all_cols r2c (map fst rows))")
    case False
    with frame l show ?thesis by simp
  next
    case True
    from all_cols_mem [OF this] obtain r cols i where
      r: "r \<in> set (map fst rows)" and c: "map_of r2c r = Some cols" "i < length cols" "cols ! i = l"
      by blast
    from r h1 obtain ss where ss: "map_of rows r = Some ss" by blast
    from each r ss c obtain cs cs1 where
      "map_of cmds l = Some cs" "set_col_style (style_for ss ?d i) cs = Some cs1"
      "map_of cmds' l = Some cs1"
      by blast
    with l set_col_style_types [of "style_for ss ?d i" cs cs1] show ?thesis by simp
  qed
  have keys: "\<forall>k \<in> set (map fst cmds').
      k < length lines \<and> (\<exists>cs t. map_of cmds' k = Some cs \<and> line_tag cs = Inr t)"
  proof
    fix k assume "k \<in> set (map fst cmds')"
    then obtain cs' where cs': "map_of cmds' k = Some cs'"
      by (metis map_of_eq_None_iff not_Some_eq set_map)
    from types [OF this] obtain cs where cs: "map_of cmds k = Some cs"
      and eq: "map cmdtype cs' = map cmdtype cs" by blast
    from cs seq [of k] have lt: "k < length lines" and "prescribed (lines ! k) = Some cs"
      by (auto split: if_splits)
    from known_types_cong [OF eq prescribed_known [OF this(2)]] line_tag_known [of cs']
    obtain t where "line_tag cs' = Inr t" by blast
    with cs' lt
    show "k < length lines \<and> (\<exists>cs t. map_of cmds' k = Some cs \<and> line_tag cs = Inr t)"
      by blast
  qed
  from replace_loop_ok [OF keys] obtain out where
    out: "replace_loop (map fst cmds') cmds' lines = Inr out" and len: "length out = length lines"
    and res: "\<forall>i < length lines.
       if i \<in> set (map fst cmds')
       then (\<exists>cs. map_of cmds' i = Some cs \<and> line_tag cs = Inr (out ! i))
       else out ! i = lines ! i"
    by auto
  have run: "run_with bs config lines = Inr out"
    using assms pop out
    by (simp add: run_with_def populate_cmd_params_def replace_markers_def)
  have "\<forall>i < length lines.
       case prescribed (lines ! i) of
         None \<Rightarrow> out ! i = lines ! i
       | Some cs \<Rightarrow> (\<exists>cs'. map cmdtype cs' = map cmdtype cs \<and> line_tag cs' = Inr (out ! i))"
  proof (intro allI impI)
    fix i assume i: "i < length lines"
    with seq [of i] have m: "map_of cmds i = prescribed (lines ! i)" by simp
    show "case prescribed (lines ! i) of
         None \<Rightarrow> out ! i = lines ! i
       | Some cs \<Rightarrow> (\<exists>cs'. map cmdtype cs' = map cmdtype cs \<and> line_tag cs' = Inr (out ! i))"
    proof (cases "prescribed (lines ! i)")
      case None
      with m have "i \<notin> set (map fst cmds)"
        by (simp add: map_of_eq_None_iff)
      with k have mem: "i \<notin> set (map fst cmds')" by simp
      from res i have "if i \<in> set (map fst cmds')
          then (\<exists>cs. map_of cmds' i = Some cs \<and> line_tag cs = Inr (out ! i))
          else out ! i = lines ! i"
        by blast
      with mem have "out ! i = lines ! i"
        by (simp only: if_False)
      with None show ?thesis by simp
    next
      case (Some cs)
      with m have "i \<in> set (map fst cmds)"
        by (metis map_of_eq_None_iff option.distinct(1) set_map)
      with k have mem: "i \<in> set (map fst cmds')" by simp
      from res i have "if i \<in> set (map fst cmds')
          then (\<exists>cs. map_of cmds' i = Some cs \<and> line_tag cs = Inr (out ! i))
          else out ! i = lines ! i"
        by blast
      with mem have "\<exists>cs. map_of cmds' i = Some cs \<and> line_tag cs = Inr (out ! i)"
        by (simp only: if_True)
      then obtain cs' where cs': "map_of cmds' i = Some cs'" "line_tag cs' = Inr (out ! i)"
        by blast
      from types [OF cs'(1)] m Some have "map cmdtype cs' = map cmdtype cs" by simp
      with cs'(2) Some show ?thesis by auto
    qed
  qed
  with run len show ?thesis by blast
qed

section \<open>Documents without markers\<close>

text \<open>
  C7. On a document none of whose lines is classified as a marker, \<open>run\<close> (that is
  \<open>parse_markers\<close>, then \<open>populate_cmd_params\<close>, then \<open>replace_markers\<close>) returns the
  lines as they are.
\<close>

theorem run_no_markers_identity:
  assumes "\<forall>line \<in> set lines. classify line = NotAMarker"
  shows "run config lines = Inr lines"
proof -
  from assms have "list_all (\<lambda>line. classify line = NotAMarker) lines"
    by (simp add: list_all_iff)
  then have "parse_markers_with GridConf_BOOTSTRAP_name lines (get_conf config ''name'') =
      Inr ([], [], [])"
    by (rule parse_markers_with_no_markers)
  then show ?thesis
    by (simp add: run_def run_with_def populate_cmd_params_def replace_markers_def)
qed

theorem run_no_markers_identity_witness:
  "classify ''Some text'' = NotAMarker \<and> classify ''a -- b'' = NotAMarker \<and>
   run [] [''Some text'', ''a -- b''] = Inr [''Some text'', ''a -- b'']"
  using run_no_markers_identity [of "[''Some text'', ''a -- b'']" "[]"]
  by (simp add: classify_examples)

end
